theory Spec2Isabelle
  imports Complex_Main "HOL-Library.Word" "HOL-Library.Code_Target_Nat"
begin

section \<open>JavaScript strings\<close>

text \<open>
  A JavaScript string is a sequence of UTF-16 code units. ASCII literals of the source
  are written \<open>js ''...''\<close>.
\<close>

type_synonym jstring = "16 word list"

definition js :: "string \<Rightarrow> jstring" where
  "js s = map (\<lambda>c. of_char c) s"

text \<open>
  \<open>String.prototype.trim\<close> removes WhiteSpace and LineTerminator code points from both
  ends: TAB, LF, VT, FF, CR, the space separators (category Zs), LS, PS and the BOM.
\<close>

definition isWhiteSpace :: "16 word \<Rightarrow> bool" where
  "isWhiteSpace c \<longleftrightarrow>
     c = 0x09 \<or> c = 0x0A \<or> c = 0x0B \<or> c = 0x0C \<or> c = 0x0D \<or> c = 0x20 \<or> c = 0xA0 \<or>
     c = 0x1680 \<or> (0x2000 \<le> c \<and> c \<le> 0x200A) \<or> c = 0x2028 \<or> c = 0x2029 \<or>
     c = 0x202F \<or> c = 0x205F \<or> c = 0x3000 \<or> c = 0xFEFF"

definition trim :: "jstring \<Rightarrow> jstring" where
  "trim s = rev (dropWhile isWhiteSpace (rev (dropWhile isWhiteSpace s)))"

definition startsWith :: "jstring \<Rightarrow> jstring \<Rightarrow> bool" where
  "startsWith s p \<longleftrightarrow> take (length p) s = p"

text \<open>
  \<open>base64Data.split(',')[1]\<close>: the piece between the first and the second comma, and
  \<open>undefined\<close> (here \<open>None\<close>) when the string has no comma.
\<close>

definition split_comma_1 :: "jstring \<Rightarrow> jstring option" where
  "split_comma_1 s =
     (case dropWhile (\<lambda>c. c \<noteq> 0x2C) s of
        [] \<Rightarrow> None
      | _ # r \<Rightarrow> Some (takeWhile (\<lambda>c. c \<noteq> 0x2C) r))"

definition is_digit :: "16 word \<Rightarrow> bool" where
  "is_digit c \<longleftrightarrow> 0x30 \<le> c \<and> c \<le> 0x39"

definition nat_of_digits :: "jstring \<Rightarrow> nat" where
  "nat_of_digits ds = foldl (\<lambda>n c. 10 * n + (unat c - 48)) 0 ds"

fun decimal :: "nat \<Rightarrow> jstring" where
  "decimal n =
     (if n < 10 then [of_nat (48 + n)] else decimal (n div 10) @ [of_nat (48 + n mod 10)])"

declare decimal.simps [simp del]

section \<open>JavaScript numbers\<close>

text \<open>
  A number literal of a JSON text denotes a rational; JavaScript keeps the IEEE double
  nearest to it (ties to the even significand). Every finite double is a rational, so
  the rounding and the printing of a number are defined on rationals, exactly.
\<close>

fun ilog :: "nat \<Rightarrow> nat \<Rightarrow> nat" where
  "ilog b n = (if b < 2 \<or> n < b then 0 else Suc (ilog b (n div b)))"

declare ilog.simps [simp del]

text \<open>The integer \<open>e\<close> with \<open>b ^ e \<le> q < b ^ (e + 1)\<close>, for a positive \<open>q\<close>.\<close>

definition floor_log :: "nat \<Rightarrow> rat \<Rightarrow> int" where
  "floor_log b q =
     (let (n, d) = quotient_of q;
          e = int (ilog b (nat n)) - int (ilog b (nat d))
      in if power_int (of_nat b) e \<le> q then e else e - 1)"

definition round_half_even :: "rat \<Rightarrow> int" where
  "round_half_even x =
     (let f = \<lfloor>x\<rfloor>; r = x - of_int f
      in if r < 1 / 2 then f else if 1 / 2 < r then f + 1 else if even f then f else f + 1)"

text \<open>
  The double nearest to a non-negative rational: 53 significant bits, and multiples of
  \<open>2 ^ - 1074\<close> in the subnormal range. A result of \<open>2 ^ 1024\<close> or more stands for
  \<open>Infinity\<close>.
\<close>

definition nearest_double :: "rat \<Rightarrow> rat" where
  "nearest_double q =
     (if q = 0 then 0
      else let p = max (floor_log 2 q - 52) (- 1074)
           in of_int (round_half_even (q / power_int 2 p)) * power_int 2 p)"

text \<open>
  Number::toString picks the fewest digits \<open>k\<close> and the integer \<open>s\<close> of \<open>k\<close> digits for
  which \<open>s * 10 ^ (n - k)\<close> rounds to the double, the nearest such \<open>s\<close> when there are
  two. Seventeen digits always suffice.
\<close>

definition digits_at :: "rat \<Rightarrow> int \<Rightarrow> nat \<Rightarrow> int option" where
  "digits_at d n k =
     (let scale = power_int 10 (n - int k);
          lo = \<lfloor>d / scale\<rfloor>;
          ok = (\<lambda>c. nearest_double (of_int c * scale) = d);
          err = (\<lambda>c. \<bar>of_int c * scale - d\<bar>)
      in if ok lo \<and> ok (lo + 1) then
           Some (if err lo < err (lo + 1) then lo
                 else if err (lo + 1) < err lo then lo + 1
                 else if even lo then lo else lo + 1)
         else if ok lo then Some lo
         else if ok (lo + 1) then Some (lo + 1)
         else None)"

fun shortest :: "rat \<Rightarrow> int \<Rightarrow> nat \<Rightarrow> nat \<Rightarrow> nat \<times> nat" where
  "shortest d n k 0 = (nat \<lfloor>d / power_int 10 (n - int k)\<rfloor>, k)"
| "shortest d n k (Suc fuel) =
     (case digits_at d n k of
        Some s \<Rightarrow> (nat s, k)
      | None \<Rightarrow> shortest d n (Suc k) fuel)"

definition format_digits :: "jstring \<Rightarrow> int \<Rightarrow> jstring" where
  "format_digits ds n =
     (let k = int (length ds) in
      if k \<le> n \<and> n \<le> 21 then ds @ replicate (nat (n - k)) 0x30
      else if 0 < n \<and> n \<le> 21 then take (nat n) ds @ [0x2E] @ drop (nat n) ds
      else if - 6 < n \<and> n \<le> 0 then [0x30, 0x2E] @ replicate (nat (- n)) 0x30 @ ds
      else (if k = 1 then ds else take 1 ds @ [0x2E] @ drop 1 ds)
           @ [0x65] @ (if n - 1 < 0 then [0x2D] else [0x2B]) @ decimal (nat \<bar>n - 1\<bar>))"

text \<open>The string of the double nearest to \<open>q\<close>.\<close>

definition Number_toString :: "rat \<Rightarrow> jstring" where
  "Number_toString q =
     (let d = nearest_double \<bar>q\<bar> in
      if d = 0 then js ''0''
      else if 2 ^ 1024 \<le> d then (if q < 0 then js ''-Infinity'' else js ''Infinity'')
      else let n = floor_log 10 d + 1;
               (s, k) = shortest d n 1 17
           in (if q < 0 then [0x2D] else [])
              @ (if s = 10 ^ k then format_digits (decimal (s div 10)) (n + 1)
                 else format_digits (decimal s) n))"

section \<open>JSON values\<close>

text \<open>
  The values \<open>JSON.parse\<close> produces, which is all the \<open>result\<close> state ever holds besides
  \<open>null\<close> and the error object literal. A number is kept as the exact decimal value of
  its literal, which stands for the double nearest to it. The members of an object are
  listed in the order \<open>Object.entries\<close> enumerates them.
\<close>

datatype json =
    JNull
  | JBool bool
  | JNumber rat
  | JString jstring
  | JArray "json list"
  | JObject "(jstring \<times> json) list"

text \<open>ToBoolean: a number is falsy when it is zero.\<close>

fun truthy :: "json \<Rightarrow> bool" where
  "truthy JNull = False"
| "truthy (JBool b) = b"
| "truthy (JNumber q) = (nearest_double \<bar>q\<bar> \<noteq> 0)"
| "truthy (JString s) = (s \<noteq> [])"
| "truthy (JArray xs) = True"
| "truthy (JObject kvs) = True"

fun typeof :: "json \<Rightarrow> string" where
  "typeof JNull = ''object''"
| "typeof (JBool b) = ''boolean''"
| "typeof (JNumber q) = ''number''"
| "typeof (JString s) = ''string''"
| "typeof (JArray xs) = ''object''"
| "typeof (JObject kvs) = ''object''"

text \<open>
  An array index is a canonical numeric string below \<open>2 ^ 32 - 1\<close>. Objects enumerate
  their array-index keys first, in ascending order, then the other keys in the order
  of their creation.
\<close>

definition array_index :: "jstring \<Rightarrow> nat option" where
  "array_index k =
     (if k \<noteq> [] \<and> list_all is_digit k \<and> (k = [0x30] \<or> hd k \<noteq> 0x30)
         \<and> nat_of_digits k < 2 ^ 32 - 1
      then Some (nat_of_digits k) else None)"

definition index_below :: "nat \<Rightarrow> jstring \<times> json \<Rightarrow> bool" where
  "index_below i kv = (case array_index (fst kv) of Some j \<Rightarrow> j < i | None \<Rightarrow> False)"

text \<open>CreateDataProperty on an ordinary object: what \<open>JSON.parse\<close> uses for each member.\<close>

definition obj_define :: "jstring \<Rightarrow> json \<Rightarrow> (jstring \<times> json) list \<Rightarrow> (jstring \<times> json) list" where
  "obj_define k v kvs =
     (if k \<in> set (map fst kvs) then map (\<lambda>(k', v'). if k' = k then (k', v) else (k', v')) kvs
      else case array_index k of
        None \<Rightarrow> kvs @ [(k, v)]
      | Some i \<Rightarrow> takeWhile (index_below i) kvs @ (k, v) # dropWhile (index_below i) kvs)"

text \<open>
  The assignment \<open>o[k] = v\<close> on an object created by the literal \<open>{}\<close>. Its prototype
  is \<open>Object.prototype\<close>, whose only accessor property is \<open>__proto__\<close>: assigning to
  that key calls the setter and creates no own property. Every other key creates or
  updates an own data property.
\<close>

definition obj_set :: "jstring \<Rightarrow> json \<Rightarrow> (jstring \<times> json) list \<Rightarrow> (jstring \<times> json) list" where
  "obj_set k v kvs = (if k = js ''__proto__'' then kvs else obj_define k v kvs)"

text \<open>
  The own properties a member access can find on a JSON value. No prototype has a
  property \<open>error\<close>, \<open>en\<close> or \<open>zh\<close>, the only keys the program looks up, so for them
  \<open>value[k]\<close> is \<open>own_property value k\<close> with \<open>None\<close> for \<open>undefined\<close>, and \<open>k in value\<close>
  is \<open>own_property value k \<noteq> None\<close>.
\<close>

fun own_property :: "json \<Rightarrow> jstring \<Rightarrow> json option" where
  "own_property (JObject kvs) k = map_of kvs k"
| "own_property (JArray xs) k =
     (case array_index k of
        Some i \<Rightarrow> if i < length xs then Some (xs ! i) else None
      | None \<Rightarrow> if k = js ''length'' then Some (JNumber (of_nat (length xs))) else None)"
| "own_property (JString s) k =
     (case array_index k of
        Some i \<Rightarrow> if i < length s then Some (JString [s ! i]) else None
      | None \<Rightarrow> if k = js ''length'' then Some (JNumber (of_nat (length s))) else None)"
| "own_property v k = None"

text \<open>\<open>Object.entries\<close>: the enumerable own string-keyed properties.\<close>

fun Object_entries :: "json \<Rightarrow> (jstring \<times> json) list" where
  "Object_entries (JObject kvs) = kvs"
| "Object_entries (JArray xs) = zip (map decimal [0..<length xs]) xs"
| "Object_entries (JString s) = zip (map decimal [0..<length s]) (map (\<lambda>c. JString [c]) s)"
| "Object_entries v = []"

section \<open>JSON.parse\<close>

datatype token =
    TLBrace | TRBrace | TLBrack | TRBrack | TColon | TComma
  | TStr jstring | TNum rat | TTrue | TFalse | TNull

definition is_json_ws :: "16 word \<Rightarrow> bool" where
  "is_json_ws c \<longleftrightarrow> c = 0x09 \<or> c = 0x0A \<or> c = 0x0D \<or> c = 0x20"

definition hex_val :: "16 word \<Rightarrow> 16 word option" where
  "hex_val c =
     (if 0x30 \<le> c \<and> c \<le> 0x39 then Some (c - 0x30)
      else if 0x41 \<le> c \<and> c \<le> 0x46 then Some (c - 0x41 + 10)
      else if 0x61 \<le> c \<and> c \<le> 0x66 then Some (c - 0x61 + 10)
      else None)"

definition hex4 :: "jstring \<Rightarrow> 16 word option" where
  "hex4 ds =
     (case map hex_val ds of
        [Some a, Some b, Some c, Some d] \<Rightarrow> Some (((a * 16 + b) * 16 + c) * 16 + d)
      | _ \<Rightarrow> None)"

definition escape :: "16 word \<Rightarrow> 16 word option" where
  "escape e =
     (if e = 0x22 then Some 0x22
      else if e = 0x5C then Some 0x5C
      else if e = 0x2F then Some 0x2F
      else if e = 0x62 then Some 0x08
      else if e = 0x66 then Some 0x0C
      else if e = 0x6E then Some 0x0A
      else if e = 0x72 then Some 0x0D
      else if e = 0x74 then Some 0x09
      else None)"

definition cons_str :: "16 word \<Rightarrow> (jstring \<times> jstring) option \<Rightarrow> (jstring \<times> jstring) option" where
  "cons_str u r = map_option (\<lambda>(s, rest). (u # s, rest)) r"

text \<open>
  The characters of a string literal after its opening quote: the string denoted and
  the input left after the closing quote.
\<close>

fun lex_string :: "jstring \<Rightarrow> (jstring \<times> jstring) option" where
  "lex_string [] = None"
| "lex_string (c # cs) =
     (if c = 0x22 then Some ([], cs)
      else if c = 0x5C then
        (case cs of
           [] \<Rightarrow> None
         | e # cs' \<Rightarrow>
             if e = 0x75 then
               (case hex4 (take 4 cs') of
                  None \<Rightarrow> None
                | Some u \<Rightarrow> cons_str u (lex_string (drop 4 cs')))
             else
               (case escape e of
                  None \<Rightarrow> None
                | Some u \<Rightarrow> cons_str u (lex_string cs')))
      else if c < 0x20 then None
      else cons_str c (lex_string cs))"

text \<open>
  A number literal: \<open>-? (0 | [1-9][0-9]*) (. [0-9]+)? ([eE] [+-]? [0-9]+)?\<close>, and its
  decimal value.
\<close>

definition exponent_value :: "jstring \<Rightarrow> int option" where
  "exponent_value s =
     (case s of
        [] \<Rightarrow> Some 0
      | e # r \<Rightarrow>
          if e = 0x65 \<or> e = 0x45 then
            (let neg = (r \<noteq> [] \<and> hd r = 0x2D);
                 ds = (if r \<noteq> [] \<and> (hd r = 0x2D \<or> hd r = 0x2B) then tl r else r)
             in if ds \<noteq> [] \<and> list_all is_digit ds
                then Some (if neg then - int (nat_of_digits ds) else int (nat_of_digits ds))
                else None)
          else None)"

definition number_value :: "jstring \<Rightarrow> rat option" where
  "number_value lit =
     (let neg = (lit \<noteq> [] \<and> hd lit = 0x2D);
          s1 = (if neg then tl lit else lit);
          ip = takeWhile is_digit s1;
          s2 = dropWhile is_digit s1;
          dot = (s2 \<noteq> [] \<and> hd s2 = 0x2E);
          fp = (if dot then takeWhile is_digit (tl s2) else []);
          s3 = (if dot then dropWhile is_digit (tl s2) else s2)
      in if ip = [] \<or> (ip \<noteq> [0x30] \<and> hd ip = 0x30) \<or> (dot \<and> fp = []) then None
         else case exponent_value s3 of
           None \<Rightarrow> None
         | Some e \<Rightarrow>
             Some ((if neg then - 1 else 1) * of_nat (nat_of_digits (ip @ fp))
                     * power_int 10 (e - int (length fp))))"

definition is_number_char :: "16 word \<Rightarrow> bool" where
  "is_number_char c \<longleftrightarrow>
     is_digit c \<or> c = 0x2D \<or> c = 0x2B \<or> c = 0x2E \<or> c = 0x65 \<or> c = 0x45"

definition cons_tok :: "token \<Rightarrow> token list option \<Rightarrow> token list option" where
  "cons_tok t r = map_option ((#) t) r"

lemma lex_string_shorter: "lex_string s = Some (x, r) \<Longrightarrow> length r < length s"
proof (induction s arbitrary: x r rule: lex_string.induct)
  case 1
  then show ?case by simp
next
  case (2 c cs)
  show ?case
  proof (cases "c = 0x22")
    case True
    with "2.prems" show ?thesis by simp
  next
    case notq: False
    show ?thesis
    proof (cases "c = 0x5C")
      case True
      with notq "2.prems" obtain e cs' where cs: "cs = e # cs'"
        by (cases cs) auto
      show ?thesis
      proof (cases "e = 0x75")
        case u: True
        with notq True cs "2.prems" obtain w y where
          h: "hex4 (take 4 cs') = Some w" and l: "lex_string (drop 4 cs') = Some (y, r)"
          by (auto simp: cons_str_def split: option.splits)
        from "2.IH"(1) [OF notq True cs u h l] show ?thesis
          using cs by simp
      next
        case nu: False
        with notq True cs "2.prems" obtain w y where
          h: "escape e = Some w" and l: "lex_string cs' = Some (y, r)"
          by (auto simp: cons_str_def split: option.splits)
        from "2.IH"(2) [OF notq True cs nu h l] show ?thesis
          using cs by simp
      qed
    next
      case False
      with notq "2.prems" obtain y where
        c: "\<not> c < 0x20" and l: "lex_string cs = Some (y, r)"
        by (auto simp: cons_str_def split: if_splits)
      from "2.IH"(3) [OF notq False c l] show ?thesis by simp
    qed
  qed
qed

function lex :: "jstring \<Rightarrow> token list option" where
  "lex [] = Some []"
| "lex (c # cs) =
     (if is_json_ws c then lex cs
      else if c = 0x7B then cons_tok TLBrace (lex cs)
      else if c = 0x7D then cons_tok TRBrace (lex cs)
      else if c = 0x5B then cons_tok TLBrack (lex cs)
      else if c = 0x5D then cons_tok TRBrack (lex cs)
      else if c = 0x3A then cons_tok TColon (lex cs)
      else if c = 0x2C then cons_tok TComma (lex cs)
      else if c = 0x22 then
        (case lex_string cs of
           None \<Rightarrow> None
         | Some (s, r) \<Rightarrow> cons_tok (TStr s) (lex r))
      else if c = 0x2D \<or> is_digit c then
        (case number_value (c # takeWhile is_number_char cs) of
           None \<Rightarrow> None
         | Some q \<Rightarrow> cons_tok (TNum q) (lex (dropWhile is_number_char cs)))
      else if startsWith (c # cs) (js ''true'') then cons_tok TTrue (lex (drop 3 cs))
      else if startsWith (c # cs) (js ''false'') then cons_tok TFalse (lex (drop 4 cs))
      else if startsWith (c # cs) (js ''null'') then cons_tok TNull (lex (drop 3 cs))
      else None)"
  by pat_completeness auto
termination
proof (relation "measure length")
  show "wf (measure length)" by simp
next
  fix c :: "16 word" and cs x2 x y
  assume "lex_string cs = Some x2" "(x, y) = x2"
  then have "length y < length cs"
    using lex_string_shorter [of cs x y] by simp
  then show "(y, c # cs) \<in> measure length" by simp
next
  fix c :: "16 word" and cs :: jstring
  have "length (dropWhile is_number_char cs) \<le> length cs"
    by (rule length_dropWhile_le)
  then show "(dropWhile is_number_char cs, c # cs) \<in> measure length" by simp
qed simp_all

declare lex.simps [simp del]

text \<open>
  The grammar over tokens, as a machine with a stack of the containers that are open:
  no recursion on the nesting, so no bound on it.
\<close>

datatype frame =
    FArr "json list"
  | FObj "(jstring \<times> json) list" "jstring option"

datatype pmode = MValue | MArrStart | MObjStart | MKey | MColon | MNext | MDone json

fun attach :: "json \<Rightarrow> frame list \<Rightarrow> (pmode \<times> frame list) option" where
  "attach v [] = Some (MDone v, [])"
| "attach v (FArr xs # st) = Some (MNext, FArr (xs @ [v]) # st)"
| "attach v (FObj kvs (Some k) # st) = Some (MNext, FObj (obj_define k v kvs) None # st)"
| "attach v (FObj kvs None # st) = None"

fun begin_value :: "token \<Rightarrow> frame list \<Rightarrow> (pmode \<times> frame list) option" where
  "begin_value TLBrace st = Some (MObjStart, FObj [] None # st)"
| "begin_value TLBrack st = Some (MArrStart, FArr [] # st)"
| "begin_value (TStr s) st = attach (JString s) st"
| "begin_value (TNum q) st = attach (JNumber q) st"
| "begin_value TTrue st = attach (JBool True) st"
| "begin_value TFalse st = attach (JBool False) st"
| "begin_value TNull st = attach JNull st"
| "begin_value t st = None"

fun begin_key :: "token \<Rightarrow> frame list \<Rightarrow> (pmode \<times> frame list) option" where
  "begin_key (TStr k) (FObj kvs None # st) = Some (MColon, FObj kvs (Some k) # st)"
| "begin_key t st = None"

fun parse_step :: "pmode \<times> frame list \<Rightarrow> token \<Rightarrow> (pmode \<times> frame list) option" where
  "parse_step (MValue, st) t = begin_value t st"
| "parse_step (MArrStart, FArr xs # st) TRBrack = attach (JArray xs) st"
| "parse_step (MArrStart, st) t = begin_value t st"
| "parse_step (MObjStart, FObj kvs None # st) TRBrace = attach (JObject kvs) st"
| "parse_step (MObjStart, st) t = begin_key t st"
| "parse_step (MKey, st) t = begin_key t st"
| "parse_step (MColon, st) TColon = Some (MValue, st)"
| "parse_step (MNext, FArr xs # st) TComma = Some (MValue, FArr xs # st)"
| "parse_step (MNext, FArr xs # st) TRBrack = attach (JArray xs) st"
| "parse_step (MNext, FObj kvs None # st) TComma = Some (MKey, FObj kvs None # st)"
| "parse_step (MNext, FObj kvs None # st) TRBrace = attach (JObject kvs) st"
| "parse_step s t = None"

fun parse_tokens :: "pmode \<times> frame list \<Rightarrow> token list \<Rightarrow> json option" where
  "parse_tokens (MDone v, []) [] = Some v"
| "parse_tokens s [] = None"
| "parse_tokens s (t # ts) =
     (case parse_step s t of None \<Rightarrow> None | Some s' \<Rightarrow> parse_tokens s' ts)"

text \<open>\<open>JSON.parse(text)\<close>: the value, or \<open>None\<close> where it throws a SyntaxError.\<close>

definition JSON_parse :: "jstring \<Rightarrow> json option" where
  "JSON_parse text = (case lex text of None \<Rightarrow> None | Some ts \<Rightarrow> parse_tokens (MValue, []) ts)"

section \<open>JSON.stringify\<close>

definition hex_digit :: "16 word \<Rightarrow> 16 word" where
  "hex_digit n = (if n < 10 then 0x30 + n else 0x61 + (n - 10))"

definition unicode_escape :: "16 word \<Rightarrow> jstring" where
  "unicode_escape c =
     [0x5C, 0x75, hex_digit (c div 0x1000), hex_digit (c div 0x100 mod 0x10),
      hex_digit (c div 0x10 mod 0x10), hex_digit (c mod 0x10)]"

definition is_high_surrogate :: "16 word \<Rightarrow> bool" where
  "is_high_surrogate c \<longleftrightarrow> 0xD800 \<le> c \<and> c \<le> 0xDBFF"

definition is_low_surrogate :: "16 word \<Rightarrow> bool" where
  "is_low_surrogate c \<longleftrightarrow> 0xDC00 \<le> c \<and> c \<le> 0xDFFF"

text \<open>
  QuoteJSONString, without the enclosing quotes: the short escapes, \<open>\uXXXX\<close> for the
  other control characters and for a surrogate that is not half of a pair.
\<close>

fun quote_chars :: "jstring \<Rightarrow> jstring" where
  "quote_chars [] = []"
| "quote_chars (c # cs) =
     (if c = 0x08 then [0x5C, 0x62] @ quote_chars cs
      else if c = 0x09 then [0x5C, 0x74] @ quote_chars cs
      else if c = 0x0A then [0x5C, 0x6E] @ quote_chars cs
      else if c = 0x0C then [0x5C, 0x66] @ quote_chars cs
      else if c = 0x0D then [0x5C, 0x72] @ quote_chars cs
      else if c = 0x22 then [0x5C, 0x22] @ quote_chars cs
      else if c = 0x5C then [0x5C, 0x5C] @ quote_chars cs
      else if c < 0x20 then unicode_escape c @ quote_chars cs
      else if is_high_surrogate c then
        (case cs of
           [] \<Rightarrow> unicode_escape c
         | d # ds \<Rightarrow>
             if is_low_surrogate d then c # d # quote_chars ds
             else unicode_escape c @ quote_chars cs)
      else if is_low_surrogate c then unicode_escape c @ quote_chars cs
      else c # quote_chars cs)"

definition quote :: "jstring \<Rightarrow> jstring" where
  "quote s = [0x22] @ quote_chars s @ [0x22]"

fun join :: "jstring \<Rightarrow> jstring list \<Rightarrow> jstring" where
  "join sep [] = []"
| "join sep [x] = x"
| "join sep (x # y # ys) = x @ sep @ join sep (y # ys)"

text \<open>
  SerializeJSONProperty with the gap of two spaces that the third argument \<open>2\<close> asks
  for; \<open>ind\<close> is the current indentation. A number that is not finite is written
  \<open>null\<close>.
\<close>

fun serialize :: "jstring \<Rightarrow> json \<Rightarrow> jstring" where
  "serialize ind JNull = js ''null''"
| "serialize ind (JBool b) = (if b then js ''true'' else js ''false'')"
| "serialize ind (JNumber q) =
     (if nearest_double \<bar>q\<bar> < 2 ^ 1024 then Number_toString q else js ''null'')"
| "serialize ind (JString s) = quote s"
| "serialize ind (JArray xs) =
     (if xs = [] then js ''[]''
      else js ''['' @ [0x0A] @ (ind @ js ''  '')
           @ join ([0x2C, 0x0A] @ (ind @ js ''  '')) (map (serialize (ind @ js ''  '')) xs)
           @ [0x0A] @ ind @ js '']'')"
| "serialize ind (JObject kvs) =
     (if kvs = [] then js ''{}''
      else js ''{'' @ [0x0A] @ (ind @ js ''  '')
           @ join ([0x2C, 0x0A] @ (ind @ js ''  ''))
               (map (\<lambda>(k, v). quote k @ js '': '' @ serialize (ind @ js ''  '') v) kvs)
           @ [0x0A] @ ind @ js ''}'')"

text \<open>\<open>JSON.stringify(value, null, 2)\<close>.\<close>

definition JSON_stringify :: "json \<Rightarrow> jstring" where
  "JSON_stringify v = serialize [] v"

section \<open>The response schema\<close>

datatype schema_type = OBJECT | STRING

datatype schema =
  Schema (stype: schema_type) (properties: "(jstring \<times> schema) list")
    (required: "jstring list") (description: "jstring option")

definition fieldSchema :: schema where
  "fieldSchema =
     Schema OBJECT
       [(js ''en'', Schema STRING [] [] None), (js ''zh'', Schema STRING [] [] None)]
       [js ''en'', js ''zh''] None"

text \<open>The object spread \<open>{ ...fieldSchema, description: d }\<close>.\<close>

definition described :: "string \<Rightarrow> schema" where
  "described d =
     Schema (stype fieldSchema) (properties fieldSchema) (required fieldSchema) (Some (js d))"

definition promptSchema :: schema where
  "promptSchema =
     Schema OBJECT
       [(js ''subject'', described ''The main subject(s) of the image in detail.''),
        (js ''style'', described ''The artistic style, medium, or aesthetic.''),
        (js ''lighting'', described ''The lighting setup and mood.''),
        (js ''composition'', described ''The framing and composition.''),
        (js ''shootingAngle'',
           described ''Shooting angle (e.g., low angle, high angle, eye level).''),
        (js ''lensSettings'', described ''Lens settings (e.g., aperture, depth of field).''),
        (js ''focalLength'', described ''Focal length (e.g., 24mm, 50mm, 85mm, macro).''),
        (js ''imageDimensions'',
           described ''Image dimensions or aspect ratio (e.g., 16:9, 4:3, 1:1).''),
        (js ''colors'', described ''The dominant color palette and tones.''),
        (js ''fullPrompt'',
           described ''A complete, cohesive prompt combining all these elements.'')]
       [js ''subject'', js ''style'', js ''lighting'', js ''composition'', js ''shootingAngle'',
        js ''lensSettings'', js ''focalLength'', js ''imageDimensions'', js ''colors'',
        js ''fullPrompt'']
       None"

text \<open>
  What the schema asks of a response: a value of the shape of \<open>fieldSchema\<close> is an
  object with string members \<open>en\<close> and \<open>zh\<close>, and a prompt result is an object whose keys
  are exactly the required keys of \<open>promptSchema\<close>, each holding such a value.
\<close>

definition is_field :: "json \<Rightarrow> bool" where
  "is_field v =
     (case (own_property v (js ''en''), own_property v (js ''zh'')) of
        (Some (JString e), Some (JString z)) \<Rightarrow> typeof v = ''object''
      | _ \<Rightarrow> False)"

definition is_prompt_result :: "json \<Rightarrow> bool" where
  "is_prompt_result v =
     (case v of
        JObject kvs \<Rightarrow>
          distinct (map fst kvs) \<and> set (map fst kvs) = set (required promptSchema)
          \<and> list_all is_field (map snd kvs)
      | _ \<Rightarrow> False)"

section \<open>The model service\<close>

datatype part = InlineData "jstring option" jstring | TextPart jstring

record request =
  model :: jstring
  contents :: "part list"
  responseMimeType :: jstring
  responseSchema :: schema

text \<open>
  What awaiting \<open>ai.models.generateContent\<close> gives: the call throws (or its promise is
  rejected), or it yields a response whose \<open>text\<close> is a string or \<open>undefined\<close>.
\<close>

datatype exn = Thrown jstring | SyntaxError

datatype outcome = Rejected exn | Fulfilled "jstring option"

text \<open>\<open>response.text?.trim() || "{}"\<close>\<close>

definition jsonStr :: "jstring option \<Rightarrow> jstring" where
  "jsonStr text =
     (case map_option trim text of
        None \<Rightarrow> js ''{}''
      | Some t \<Rightarrow> if t \<noteq> [] then t else js ''{}'')"

text \<open>
  The two statements both handlers run after the \<open>await\<close>, up to the value handed to
  \<open>setResult\<close>: \<open>Inl\<close> is the exception that reaches the \<open>catch\<close> block.
\<close>

definition parse_response :: "outcome \<Rightarrow> exn + json" where
  "parse_response out =
     (case out of
        Rejected e \<Rightarrow> Inl e
      | Fulfilled text \<Rightarrow>
          (case JSON_parse (jsonStr text) of
             None \<Rightarrow> Inl SyntaxError
           | Some v \<Rightarrow> Inr v))"

section \<open>The component state and its handlers\<close>

datatype mode = ModeAll | ModeEn | ModeZh

fun mode_key :: "mode \<Rightarrow> jstring" where
  "mode_key ModeAll = js ''all''"
| "mode_key ModeEn = js ''en''"
| "mode_key ModeZh = js ''zh''"

record File =
  fname :: jstring
  ftype :: jstring

text \<open>
  The \<open>useState\<close> cells of \<open>App\<close>; \<open>image_url\<close> is the cell \<open>image\<close>, with \<open>None\<close> for
  \<open>null\<close>. The \<open>null\<close> of \<open>result\<close> is \<open>JNull\<close>.
\<close>

record state =
  image_url :: "jstring option"
  isDragging :: bool
  isLoading :: bool
  isModifying :: bool
  result :: json
  copied :: "mode option"
  modifyInstruction :: jstring

text \<open>The initial values of the cells.\<close>

definition initial_state :: state where
  "initial_state =
     \<lparr>image_url = None, isDragging = False, isLoading = False, isModifying = False,
      result = JNull, copied = None, modifyInstruction = []\<rparr>"

text \<open>
  What a handler does to the world outside the state. A handler is a function from the
  state to the new state and the effects it issued, in order. An \<open>async\<close> handler is
  one such function up to its \<open>await\<close> and another from there on, which takes what the
  awaited call gave.
\<close>

datatype effect =
    PreventDefault
  | ReadAsDataURL File
  | GenerateContent request
  | ConsoleError jstring exn
  | ClipboardWriteText jstring
  | SetTimeout nat
  | ClearFileInput

definition error_result :: json where
  "error_result = JObject [(js ''error'', JString (js ''Failed to analyze image. Please try again.''))]"

definition analysis_prompt :: jstring where
  "analysis_prompt = js (''Analyze this image in extreme detail. Provide a comprehensive prompt that could be used to recreate this image using an AI image generator. Include specific details about the subject, style, lighting, composition, shooting angle, lens settings, focal length, image dimensions/aspect ratio, and colors. Provide both English and Chinese translations for each field.'')"

text \<open>The argument of the \<open>generateContent\<close> call in \<open>analyzeImage\<close>.\<close>

definition analysis_request :: "jstring option \<Rightarrow> jstring \<Rightarrow> request" where
  "analysis_request base64String mimeType =
     \<lparr>model = js ''gemini-3-flash-preview'',
      contents = [InlineData base64String mimeType, TextPart analysis_prompt],
      responseMimeType = js ''application/json'',
      responseSchema = promptSchema\<rparr>"

definition analyzeImage_begin :: "jstring \<Rightarrow> jstring \<Rightarrow> state \<Rightarrow> state \<times> effect list" where
  "analyzeImage_begin base64Data mimeType st =
     (let st1 = st\<lparr>isLoading := True\<rparr>;
          st2 = st1\<lparr>result := JNull\<rparr>;
          base64String = split_comma_1 base64Data
      in (st2, [GenerateContent (analysis_request base64String mimeType)]))"

definition analyzeImage_end :: "outcome \<Rightarrow> state \<Rightarrow> state \<times> effect list" where
  "analyzeImage_end out st =
     (let (st1, fx) =
            (case parse_response out of
               Inr v \<Rightarrow> (st\<lparr>result := v\<rparr>, [])
             | Inl e \<Rightarrow>
                 (st\<lparr>result := error_result\<rparr>, [ConsoleError (js ''Error analyzing image:'') e]))
      in (st1\<lparr>isLoading := False\<rparr>, fx))"

text \<open>A call of \<open>analyzeImage\<close> that nothing else interleaves with.\<close>

definition analyzeImage :: "jstring \<Rightarrow> jstring \<Rightarrow> outcome \<Rightarrow> state \<Rightarrow> state \<times> effect list" where
  "analyzeImage base64Data mimeType out st =
     (let (st1, fx1) = analyzeImage_begin base64Data mimeType st;
          (st2, fx2) = analyzeImage_end out st1
      in (st2, fx1 @ fx2))"

definition processFile :: "File \<Rightarrow> state \<Rightarrow> state \<times> effect list" where
  "processFile f st = (st, [ReadAsDataURL f])"

text \<open>The \<open>onload\<close> callback of the reader, with the data URL it read.\<close>

definition reader_onload :: "File \<Rightarrow> jstring \<Rightarrow> state \<Rightarrow> state \<times> effect list" where
  "reader_onload f base64 st = analyzeImage_begin base64 (ftype f) (st\<lparr>image_url := Some base64\<rparr>)"

definition handleDragOver :: "state \<Rightarrow> state \<times> effect list" where
  "handleDragOver st = (st\<lparr>isDragging := True\<rparr>, [PreventDefault])"

definition handleDragLeave :: "state \<Rightarrow> state \<times> effect list" where
  "handleDragLeave st = (st\<lparr>isDragging := False\<rparr>, [PreventDefault])"

definition handleDrop :: "File list \<Rightarrow> state \<Rightarrow> state \<times> effect list" where
  "handleDrop files st =
     (let st1 = st\<lparr>isDragging := False\<rparr>
      in case files of
           [] \<Rightarrow> (st1, [PreventDefault])
         | f # _ \<Rightarrow>
             if startsWith (ftype f) (js ''image/'')
             then (let (st2, fx) = processFile f st1 in (st2, PreventDefault # fx))
             else (st1, [PreventDefault]))"

definition handleFileChange :: "File list option \<Rightarrow> state \<Rightarrow> state \<times> effect list" where
  "handleFileChange files st =
     (case files of
        None \<Rightarrow> (st, [])
      | Some [] \<Rightarrow> (st, [])
      | Some (f # _) \<Rightarrow> processFile f st)"

definition modify_prompt :: "json \<Rightarrow> jstring \<Rightarrow> jstring" where
  "modify_prompt res instruction =
     js ''Here is the current image prompt JSON:'' @ [0x0A] @ JSON_stringify res
     @ [0x0A, 0x0A] @ js ''User modification request: '' @ [0x22] @ instruction @ [0x22]
     @ [0x0A, 0x0A]
     @ js (''Please update the JSON according to the user's request. Keep the exact same JSON structure, updating both the English ('en') and Chinese ('zh') fields to reflect the changes.'')"

text \<open>
  The guard \<open>!modifyInstruction.trim() || !result || result.error\<close>; the member access
  is evaluated only on a truthy \<open>result\<close>.
\<close>

definition modify_blocked :: "state \<Rightarrow> bool" where
  "modify_blocked st \<longleftrightarrow>
     trim (modifyInstruction st) = [] \<or> \<not> truthy (result st)
     \<or> (case own_property (result st) (js ''error'') of None \<Rightarrow> False | Some e \<Rightarrow> truthy e)"

text \<open>The argument of the \<open>generateContent\<close> call in \<open>handleModify\<close>.\<close>

definition modify_request :: "jstring \<Rightarrow> request" where
  "modify_request prompt =
     \<lparr>model = js ''gemini-3-flash-preview'',
      contents = [TextPart prompt],
      responseMimeType = js ''application/json'',
      responseSchema = promptSchema\<rparr>"

definition handleModify_begin :: "state \<Rightarrow> state \<times> effect list" where
  "handleModify_begin st =
     (if modify_blocked st then (st, [])
      else (st\<lparr>isModifying := True\<rparr>,
            [GenerateContent
               (modify_request (modify_prompt (result st) (modifyInstruction st)))]))"

definition handleModify_end :: "outcome \<Rightarrow> state \<Rightarrow> state \<times> effect list" where
  "handleModify_end out st =
     (let (st1, fx) =
            (case parse_response out of
               Inr v \<Rightarrow> (st\<lparr>result := v, modifyInstruction := []\<rparr>, [])
             | Inl e \<Rightarrow> (st, [ConsoleError (js ''Error modifying prompt:'') e]))
      in (st1\<lparr>isModifying := False\<rparr>, fx))"

text \<open>
  A call of \<open>handleModify\<close> that nothing else interleaves with. The model is called,
  and \<open>out\<close> is looked at, only past the guard.
\<close>

definition handleModify :: "outcome \<Rightarrow> state \<Rightarrow> state \<times> effect list" where
  "handleModify out st =
     (if modify_blocked st then (st, [])
      else (let (st1, fx1) = handleModify_begin st;
                (st2, fx2) = handleModify_end out st1
            in (st2, fx1 @ fx2)))"

text \<open>The loop over \<open>Object.entries(result)\<close> that fills \<open>filteredResult\<close>.\<close>

definition filter_step ::
  "jstring \<Rightarrow> (jstring \<times> json) list \<Rightarrow> jstring \<times> json \<Rightarrow> (jstring \<times> json) list" where
  "filter_step m filteredResult kv =
     (case kv of (key, value) \<Rightarrow>
        if truthy value \<and> typeof value = ''object'' \<and> own_property value m \<noteq> None
        then obj_set key (the (own_property value m)) filteredResult
        else obj_set key value filteredResult)"

definition filteredResult :: "mode \<Rightarrow> json \<Rightarrow> (jstring \<times> json) list" where
  "filteredResult m res = foldl (filter_step (mode_key m)) [] (Object_entries res)"

definition textToCopy :: "mode \<Rightarrow> json \<Rightarrow> jstring" where
  "textToCopy m res =
     (if m = ModeAll then JSON_stringify res
      else JSON_stringify (JObject (filteredResult m res)))"

definition copyToClipboard :: "mode \<Rightarrow> state \<Rightarrow> state \<times> effect list" where
  "copyToClipboard m st =
     (if \<not> truthy (result st) then (st, [])
      else (st\<lparr>copied := Some m\<rparr>, [ClipboardWriteText (textToCopy m (result st)), SetTimeout 2000]))"

text \<open>The callback of the timer \<open>copyToClipboard\<close> starts.\<close>

definition clearCopied :: "state \<Rightarrow> state \<times> effect list" where
  "clearCopied st = (st\<lparr>copied := None\<rparr>, [])"

text \<open>\<open>reset\<close>, with the file input mounted.\<close>

definition reset :: "state \<Rightarrow> state \<times> effect list" where
  "reset st =
     (st\<lparr>image_url := None, result := JNull, modifyInstruction := []\<rparr>, [ClearFileInput])"

section \<open>The result renderer\<close>

text \<open>
  The React nodes \<open>renderJson\<close> builds. A child of an element is a JavaScript value
  (a string of JSX text, the interpolated \<open>{obj}\<close> or \<open>{key}\<close>, the \<open>false\<close> of a
  conjunction \<open>cond && node\<close>), the array of \<open>entries.map\<close>, or an element with its tag,
  its \<open>key\<close>, its \<open>className\<close> and its children.
\<close>

datatype node =
    Value json
  | Nodes "node list"
  | Elem string "jstring option" string "node list"

abbreviation Text :: "jstring \<Rightarrow> node" where
  "Text s \<equiv> Value (JString s)"

lemma nth_mem_eq: "i < length xs \<Longrightarrow> xs ! i = x \<Longrightarrow> x \<in> set xs"
  by auto

lemma entries_smaller:
  assumes "typeof obj = ''object''" and "(k, v) \<in> set (Object_entries obj)"
  shows "size v < size obj"
proof (cases obj)
  case (JArray xs)
  with assms have "v \<in> set xs"
    by (auto dest: set_zip_rightD)
  then have "size v < Suc (size_list size xs)"
    by (simp add: less_Suc_eq_le size_list_estimation')
  with JArray show ?thesis by simp
next
  case (JObject kvs)
  with assms have "(k, v) \<in> set kvs" by simp
  then have "size_prod (\<lambda>x. 0) size (k, v) \<le> size_list (size_prod (\<lambda>x. 0) size) kvs"
    by (rule size_list_estimation') simp
  with JObject show ?thesis by simp
qed (use assms in simp_all)

function renderJson :: "json \<Rightarrow> bool \<Rightarrow> node" where
  "renderJson obj isRoot =
     (if typeof obj \<noteq> ''object'' \<or> obj = JNull then
        Elem ''span'' None ''text-emerald-300'' [Text [0x22], Value obj, Text [0x22]]
      else
        (let entries = Object_entries obj in
         Elem ''span'' None []
           [Elem ''span'' None ''text-zinc-500'' [Text (js ''{'')],
            (if length entries > 0 then Text [0x0A] else Value (JBool False)),
            Nodes (map (\<lambda>(index, key, value).
                     Elem ''div'' (Some key) ''pl-4''
                       [Elem ''span'' None ''text-indigo-300'' [Text [0x22], Text key, Text [0x22]],
                        Elem ''span'' None ''text-zinc-500'' [Text (js '': '')],
                        renderJson value False,
                        (if int index < int (length entries) - 1
                         then Elem ''span'' None ''text-zinc-500'' [Text (js '','')]
                         else Value (JBool False))])
                   (enumerate 0 entries)),
            Elem ''span'' None ''text-zinc-500'' [Text (js ''}'')]]))"
  by pat_completeness auto
termination
proof (relation "measure (\<lambda>(obj, isRoot). size obj)")
  show "wf (measure (\<lambda>(obj, isRoot). size obj))" by simp
next
  fix obj :: json and isRoot :: bool and entries x index y key "value"
  assume obj: "\<not> (typeof obj \<noteq> ''object'' \<or> obj = JNull)"
    and e: "entries = Object_entries obj"
    and x: "x \<in> set (enumerate 0 entries)" "(index, y) = x" "(key, value) = y"
  from x have "(key, value) \<in> set entries"
    by (auto simp: in_set_enumerate_eq intro: nth_mem_eq)
  with obj e have "size value < size obj"
    using entries_smaller [of obj key "value"] by simp
  then show "((value, False), (obj, isRoot)) \<in> measure (\<lambda>(obj, isRoot). size obj)"
    by simp
qed

declare renderJson.simps [simp del]

section \<open>The renderer and the projection, as the specification words them\<close>

text \<open>
  A leaf is its value between double quotes. An object is an opening brace, one line
  per entry (the quoted key, a colon, the rendering of the value, and a comma after
  every entry but the last) and a closing brace.
\<close>

definition render_leaf :: "json \<Rightarrow> node" where
  "render_leaf v = Elem ''span'' None ''text-emerald-300'' [Text [0x22], Value v, Text [0x22]]"

definition punct :: "jstring \<Rightarrow> node" where
  "punct s = Elem ''span'' None ''text-zinc-500'' [Text s]"

definition entry_line :: "jstring \<Rightarrow> node \<Rightarrow> bool \<Rightarrow> node" where
  "entry_line key rendered comma =
     Elem ''div'' (Some key) ''pl-4''
       [Elem ''span'' None ''text-indigo-300'' [Text [0x22], Text key, Text [0x22]],
        punct (js '': ''), rendered, (if comma then punct (js '','') else Value (JBool False))]"

fun entry_lines :: "(jstring \<times> node) list \<Rightarrow> node list" where
  "entry_lines [] = []"
| "entry_lines [(key, rendered)] = [entry_line key rendered False]"
| "entry_lines ((key, rendered) # e # es) = entry_line key rendered True # entry_lines (e # es)"

definition render_object :: "(jstring \<times> node) list \<Rightarrow> node" where
  "render_object rendered =
     Elem ''span'' None []
       [punct (js ''{''), (if rendered = [] then Value (JBool False) else Text [0x0A]),
        Nodes (entry_lines rendered), punct (js ''}'')]"

text \<open>
  The value a field contributes to a single-language copy: the member of the chosen
  language when the field is an object that has it, the field itself otherwise.
\<close>

definition projected :: "jstring \<Rightarrow> json \<Rightarrow> json" where
  "projected m v =
     (if truthy v \<and> typeof v = ''object'' \<and> own_property v m \<noteq> None
      then the (own_property v m) else v)"

section \<open>Notions for the properties of the parser\<close>

text \<open>The keys that \<open>Object.entries\<close> lists are distinct: an invariant of the parser.\<close>

definition entries_distinct :: "json \<Rightarrow> bool" where
  "entries_distinct v \<longleftrightarrow> distinct (map fst (Object_entries v))"

text \<open>The same of the objects that are still open, and of a finished value.\<close>

fun frame_ok :: "frame \<Rightarrow> bool" where
  "frame_ok (FArr xs) = True"
| "frame_ok (FObj kvs k) = distinct (map fst kvs)"

fun state_ok :: "pmode \<times> frame list \<Rightarrow> bool" where
  "state_ok (MDone v, st) = (entries_distinct v \<and> list_all frame_ok st)"
| "state_ok (m, st) = list_all frame_ok st"

text \<open>The punctuation tokens of the lexer.\<close>

definition is_punct :: "16 word \<Rightarrow> bool" where
  "is_punct a \<longleftrightarrow> a = 0x7B \<or> a = 0x7D \<or> a = 0x5B \<or> a = 0x5D \<or> a = 0x3A \<or> a = 0x2C"

definition punct_tok :: "16 word \<Rightarrow> token" where
  "punct_tok a =
     (if a = 0x7B then TLBrace else if a = 0x7D then TRBrace else if a = 0x5B then TLBrack
      else if a = 0x5D then TRBrack else if a = 0x3A then TColon else TComma)"

section \<open>Example values\<close>

text \<open>
  The example result of the specification, a result with a field that is not an object,
  a result with the key \<open>__proto__\<close>, and a state after an analysis.
\<close>

definition example_result :: json where
  "example_result =
     JObject [(js ''subject'',
               JObject [(js ''en'', JString (js ''A cat'')),
                        (js ''zh'', JString [0x4E00, 0x53EA, 0x732B])])]"

definition example_mixed :: json where
  "example_mixed =
     JObject [(js ''subject'',
               JObject [(js ''en'', JString (js ''A cat'')),
                        (js ''zh'', JString [0x4E00, 0x53EA, 0x732B])]),
              (js ''note'', JString (js ''n/a''))]"

definition proto_result :: json where
  "proto_result =
     JObject [(js ''__proto__'',
               JObject [(js ''en'', JString (js ''a'')), (js ''zh'', JString (js ''b''))])]"

definition example_state :: state where
  "example_state =
     initial_state\<lparr>image_url := Some (js ''data:image/png;base64,iVBORw0KGgo=''),
       result := example_result, modifyInstruction := js ''make it night''\<rparr>"

section \<open>Properties of object assignment\<close>

lemma keys_insert_mid: "fst ` set (ys @ (k, v) # zs) = insert k (fst ` set (ys @ zs))"
  by auto

lemma map_of_insert_mid:
  "k \<notin> fst ` set ys \<Longrightarrow> map_of (ys @ (k, v) # zs) x = ((map_of (ys @ zs))(k \<mapsto> v)) x"
  by (induction ys) auto

lemma keys_replace:
  "map fst (map (\<lambda>(k', v'). if k' = k then (k', v) else (k', v')) kvs) = map fst kvs"
  by (induction kvs) (auto split: prod.splits)

lemma map_of_replace_hit:
  "k \<in> fst ` set kvs \<Longrightarrow>
   map_of (map (\<lambda>(k', v'). if k' = k then (k', v) else (k', v')) kvs) k = Some v"
  by (induction kvs) (auto split: prod.splits)

lemma map_of_replace_miss:
  "x \<noteq> k \<Longrightarrow>
   map_of (map (\<lambda>(k', v'). if k' = k then (k', v) else (k', v')) kvs) x = map_of kvs x"
  by (induction kvs) (auto split: prod.splits)

lemma keys_obj_define: "fst ` set (obj_define k v kvs) = insert k (fst ` set kvs)"
proof (cases "k \<in> set (map fst kvs)")
  case True
  have "fst ` set (map (\<lambda>(k', v'). if k' = k then (k', v) else (k', v')) kvs)
        = set (map fst (map (\<lambda>(k', v'). if k' = k then (k', v) else (k', v')) kvs))"
    by (simp only: set_map)
  also have "\<dots> = fst ` set kvs"
    by (simp only: keys_replace set_map)
  finally show ?thesis
    using True by (simp add: obj_define_def insert_absorb)
next
  case False
  show ?thesis
  proof (cases "array_index k")
    case None
    with False show ?thesis by (simp add: obj_define_def)
  next
    case (Some i)
    have "fst ` set (takeWhile (index_below i) kvs @ (k, v) # dropWhile (index_below i) kvs)
          = insert k (fst ` set (takeWhile (index_below i) kvs @ dropWhile (index_below i) kvs))"
      by (rule keys_insert_mid)
    then have "fst ` set (takeWhile (index_below i) kvs @ (k, v) # dropWhile (index_below i) kvs)
          = insert k (fst ` set kvs)"
      by (simp only: takeWhile_dropWhile_id)
    with False Some show ?thesis
      by (simp add: obj_define_def del: set_append)
  qed
qed

lemma map_of_insert_between:
  assumes "k \<notin> fst ` set kvs"
  shows "map_of (takeWhile P kvs @ (k, v) # dropWhile P kvs) x = ((map_of kvs)(k \<mapsto> v)) x"
proof -
  have "set (takeWhile P kvs) \<subseteq> set kvs"
    by (auto dest: set_takeWhileD)
  with assms have "k \<notin> fst ` set (takeWhile P kvs)" by auto
  then have "map_of (takeWhile P kvs @ (k, v) # dropWhile P kvs) x
             = ((map_of (takeWhile P kvs @ dropWhile P kvs))(k \<mapsto> v)) x"
    by (rule map_of_insert_mid)
  then show ?thesis
    by (simp only: takeWhile_dropWhile_id)
qed

lemma map_of_obj_define: "map_of (obj_define k v kvs) x = ((map_of kvs)(k \<mapsto> v)) x"
proof (cases "k \<in> fst ` set kvs")
  case True
  then show ?thesis
    by (cases "x = k") (simp_all add: obj_define_def map_of_replace_hit map_of_replace_miss)
next
  case False
  then have none: "map_of kvs k = None"
    by (simp add: map_of_eq_None_iff)
  show ?thesis
  proof (cases "array_index k")
    case None
    with False none show ?thesis
      by (auto simp: obj_define_def map_add_def split: option.splits)
  next
    case (Some i)
    with False show ?thesis
      using map_of_insert_between [OF False, of "index_below i" v x]
      by (simp add: obj_define_def)
  qed
qed

lemma filter_step_keys:
  "fst ` set (filter_step m acc (k, v))
   = (if k = js ''__proto__'' then fst ` set acc else insert k (fst ` set acc))"
  by (simp add: filter_step_def obj_set_def keys_obj_define)

lemma filter_step_lookup:
  "map_of (filter_step m acc (k, v)) x
   = (if x = k \<and> k \<noteq> js ''__proto__'' then Some (projected m v) else map_of acc x)"
  by (auto simp: filter_step_def obj_set_def map_of_obj_define projected_def)

lemma foldl_filter_keys:
  "fst ` set (foldl (filter_step m) acc es)
   = fst ` set acc \<union> (fst ` set es - {js ''__proto__''})"
proof (induction es arbitrary: acc)
  case Nil
  then show ?case by simp
next
  case (Cons e es)
  obtain k v where e: "e = (k, v)" by (cases e)
  show ?case
    unfolding e foldl_Cons Cons.IH filter_step_keys by auto
qed

lemma foldl_filter_other:
  "x \<notin> fst ` set es \<Longrightarrow> map_of (foldl (filter_step m) acc es) x = map_of acc x"
proof (induction es arbitrary: acc)
  case Nil
  then show ?case by simp
next
  case (Cons e es)
  obtain k v where e: "e = (k, v)" by (cases e)
  from Cons.prems e have "x \<noteq> k" "x \<notin> fst ` set es" by auto
  then show ?case
    unfolding e foldl_Cons by (simp add: Cons.IH filter_step_lookup)
qed

lemma foldl_filter_lookup:
  assumes "distinct (map fst es)" and "(k, v) \<in> set es" and "k \<noteq> js ''__proto__''"
  shows "map_of (foldl (filter_step m) acc es) k = Some (projected m v)"
  using assms
proof (induction es arbitrary: acc)
  case Nil
  then show ?case by simp
next
  case (Cons e es)
  obtain k' v' where e: "e = (k', v')" by (cases e)
  show ?case
  proof (cases "(k, v) = e")
    case True
    with Cons.prems e have "k \<notin> fst ` set es" by auto
    with True e Cons.prems(3) show ?thesis
      by (simp add: foldl_filter_other filter_step_lookup)
  next
    case False
    with Cons.prems have "(k, v) \<in> set es" "distinct (map fst es)" by auto
    with Cons.IH Cons.prems(3) show ?thesis by simp
  qed
qed

section \<open>Properties of \<open>JSON.parse\<close>\<close>

lemma nat_of_digits_snoc: "nat_of_digits (ds @ [c]) = 10 * nat_of_digits ds + (unat c - 48)"
  by (simp add: nat_of_digits_def)

lemma digit_code_unit: "d < 10 \<Longrightarrow> unat (of_nat (48 + d) :: 16 word) - 48 = d"
  by (simp only: unat_of_nat) simp

lemma nat_of_digits_decimal: "nat_of_digits (decimal n) = n"
proof (induction n rule: decimal.induct)
  case (1 n)
  show ?case
  proof (cases "n < 10")
    case True
    then have "decimal n = [of_nat (48 + n)]"
      by (subst decimal.simps) simp
    with True show ?thesis
      by (simp add: nat_of_digits_def digit_code_unit del: of_nat_add)
  next
    case False
    then have "decimal n = decimal (n div 10) @ [of_nat (48 + n mod 10)]"
      by (subst decimal.simps) simp
    with False "1.IH" show ?thesis
      by (simp add: nat_of_digits_snoc digit_code_unit del: of_nat_add)
  qed
qed

lemma decimal_keys_distinct: "distinct (map decimal [0..<n])"
proof -
  have "inj decimal"
    by (rule inj_on_inverseI [where g = nat_of_digits]) (rule nat_of_digits_decimal)
  then show ?thesis
    by (simp add: distinct_map inj_on_def)
qed

lemma entries_distinct_simps:
  "entries_distinct JNull" "entries_distinct (JBool b)" "entries_distinct (JNumber q)"
  "entries_distinct (JString s)" "entries_distinct (JArray xs)"
  "entries_distinct (JObject kvs) = distinct (map fst kvs)"
  using decimal_keys_distinct by (simp_all add: entries_distinct_def)

lemma distinct_insert_mid:
  "distinct (map fst (ys @ zs)) \<Longrightarrow> k \<notin> fst ` set (ys @ zs) \<Longrightarrow>
   distinct (map fst (ys @ (k, v) # zs))"
  by auto

lemma obj_define_distinct:
  assumes "distinct (map fst kvs)"
  shows "distinct (map fst (obj_define k v kvs))"
proof (cases "k \<in> fst ` set kvs")
  case True
  with assms show ?thesis
    by (simp add: obj_define_def keys_replace del: map_map)
next
  case False
  show ?thesis
  proof (cases "array_index k")
    case None
    with False assms show ?thesis by (simp add: obj_define_def)
  next
    case (Some i)
    have "distinct (map fst (takeWhile (index_below i) kvs @ dropWhile (index_below i) kvs))"
      "k \<notin> fst ` set (takeWhile (index_below i) kvs @ dropWhile (index_below i) kvs)"
      using assms False by (simp_all only: takeWhile_dropWhile_id not_False_eq_True)
    then have "distinct (map fst (takeWhile (index_below i) kvs @ (k, v) # dropWhile (index_below i) kvs))"
      by (rule distinct_insert_mid)
    moreover from False Some have "obj_define k v kvs
        = takeWhile (index_below i) kvs @ (k, v) # dropWhile (index_below i) kvs"
      by (simp add: obj_define_def)
    ultimately show ?thesis
      by (simp only:)
  qed
qed

lemma attach_ok:
  "entries_distinct v \<Longrightarrow> list_all frame_ok st \<Longrightarrow> attach v st = Some s \<Longrightarrow> state_ok s"
  by (induction v st rule: attach.induct) (auto simp: obj_define_distinct)

lemma begin_value_ok:
  "list_all frame_ok st \<Longrightarrow> begin_value t st = Some s \<Longrightarrow> state_ok s"
  by (cases t) (auto simp: entries_distinct_simps dest: attach_ok [rotated 2])

lemma begin_key_ok:
  "list_all frame_ok st \<Longrightarrow> begin_key t st = Some s \<Longrightarrow> state_ok s"
  by (induction t st rule: begin_key.induct) auto

lemma state_ok_frames: "state_ok (m, st) \<Longrightarrow> list_all frame_ok st"
  by (cases m) simp_all

lemma parse_step_ok:
  assumes "state_ok s" and "parse_step s t = Some s'"
  shows "state_ok s'"
proof -
  obtain m st where s: "s = (m, st)" by (cases s)
  from assms s have fr: "list_all frame_ok st" by (simp add: state_ok_frames)
  show ?thesis
  proof (cases m)
    case MValue
    with assms s fr show ?thesis by (simp add: begin_value_ok)
  next
    case MArrStart
    show ?thesis
    proof (cases "\<exists>xs st'. st = FArr xs # st' \<and> t = TRBrack")
      case True
      then obtain xs st' where "st = FArr xs # st'" "t = TRBrack" by blast
      with assms s fr MArrStart show ?thesis
        using attach_ok [of "JArray xs" st' s'] by (simp add: entries_distinct_simps)
    next
      case False
      with MArrStart have "parse_step (m, st) t = begin_value t st"
        by (cases "((m, st), t)" rule: parse_step.cases) auto
      with assms s fr show ?thesis by (simp add: begin_value_ok)
    qed
  next
    case MObjStart
    show ?thesis
    proof (cases "\<exists>kvs st'. st = FObj kvs None # st' \<and> t = TRBrace")
      case True
      then obtain kvs st' where "st = FObj kvs None # st'" "t = TRBrace" by blast
      with assms s fr MObjStart show ?thesis
        using attach_ok [of "JObject kvs" st' s'] by (simp add: entries_distinct_simps)
    next
      case False
      with MObjStart have "parse_step (m, st) t = begin_key t st"
        by (cases "((m, st), t)" rule: parse_step.cases) auto
      with assms s fr show ?thesis by (simp add: begin_key_ok)
    qed
  next
    case MKey
    with assms s fr show ?thesis by (simp add: begin_key_ok)
  next
    case MColon
    with assms s fr show ?thesis by (cases t) auto
  next
    case MNext
    from assms s fr MNext show ?thesis
      by (cases "((m, st), t)" rule: parse_step.cases)
         (auto simp: entries_distinct_simps dest: attach_ok [rotated 2])
  next
    case (MDone v)
    with assms s show ?thesis by simp
  qed
qed

lemma parse_tokens_ok:
  "state_ok s \<Longrightarrow> parse_tokens s ts = Some v \<Longrightarrow> entries_distinct v"
proof (induction ts arbitrary: s)
  case Nil
  then show ?case
    by (cases "(s, [] :: token list)" rule: parse_tokens.cases) auto
next
  case (Cons t ts)
  then obtain s' where "parse_step s t = Some s'" "parse_tokens s' ts = Some v"
    by (cases s) (auto split: option.splits)
  with Cons.IH Cons.prems(1) show ?case
    by (blast intro: parse_step_ok)
qed

lemma parsed_keys_distinct:
  "JSON_parse t = Some v \<Longrightarrow> distinct (map fst (Object_entries v))"
  using parse_tokens_ok [of "(MValue, [])"]
  by (auto simp: JSON_parse_def entries_distinct_def split: option.splits)

subsection \<open>White space around a text\<close>

lemma takeWhile_snoc_not: "\<not> P c \<Longrightarrow> takeWhile P (xs @ [c]) = takeWhile P xs"
  by (induction xs) auto

lemma dropWhile_snoc_not: "\<not> P c \<Longrightarrow> dropWhile P (xs @ [c]) = dropWhile P xs @ [c]"
  by (induction xs) auto

lemma startsWith_snoc:
  assumes "c \<notin> set p"
  shows "startsWith (s @ [c]) p = startsWith s p"
proof (cases "length p \<le> length s")
  case True
  then show ?thesis by (simp add: startsWith_def)
next
  case False
  then have "take (length p) (s @ [c]) = s @ [c]" by simp
  moreover have "s @ [c] \<noteq> p"
    using assms by auto
  moreover have "take (length p) s \<noteq> p"
  proof
    assume "take (length p) s = p"
    then have "length (take (length p) s) = length p" by simp
    with False show False by simp
  qed
  ultimately show ?thesis by (simp add: startsWith_def)
qed

lemma ws_facts:
  assumes "isWhiteSpace c"
  shows "c \<noteq> 0x22" "c \<noteq> 0x5C" "c \<noteq> 0x75" "escape c = None" "hex_val c = None"
    "\<not> is_number_char c" "c \<notin> set (js ''true'')" "c \<notin> set (js ''false'')"
    "c \<notin> set (js ''null'')"
  using assms
  by (auto simp: isWhiteSpace_def escape_def hex_val_def is_number_char_def is_digit_def js_def
      word_le_nat_alt word_less_nat_alt)

lemma ws_token:
  assumes "isWhiteSpace c"
  shows "c \<noteq> 0x7B" "c \<noteq> 0x7D" "c \<noteq> 0x5B" "c \<noteq> 0x5D" "c \<noteq> 0x3A" "c \<noteq> 0x2C"
    "c \<noteq> 0x2D" "\<not> is_digit c"
  using assms by (auto simp: isWhiteSpace_def is_digit_def word_le_nat_alt)

lemma lex_ws_only:
  assumes "isWhiteSpace c" and "\<not> is_json_ws c"
  shows "lex (c # cs) = None"
proof -
  have "\<not> startsWith (c # cs) (js ''true'')" "\<not> startsWith (c # cs) (js ''false'')"
    "\<not> startsWith (c # cs) (js ''null'')"
    using ws_facts(7-9) [OF assms(1)] by (auto simp: startsWith_def js_def)
  with assms ws_token [OF assms(1)] ws_facts(1) [OF assms(1)] show ?thesis
    by (subst lex.simps) simp
qed

lemma lex_dropWhile_ws: "lex t = Some ts \<Longrightarrow> lex (dropWhile isWhiteSpace t) = Some ts"
proof (induction t)
  case Nil
  then show ?case by simp
next
  case (Cons c cs)
  show ?case
  proof (cases "isWhiteSpace c")
    case False
    with Cons.prems show ?thesis by simp
  next
    case True
    show ?thesis
    proof (cases "is_json_ws c")
      case ws: True
      with Cons.prems have "lex cs = Some ts"
        by (subst (asm) lex.simps) simp
      with Cons.IH True show ?thesis by simp
    next
      case False
      with True Cons.prems show ?thesis by (simp add: lex_ws_only)
    qed
  qed
qed


lemma hex4_snoc:
  assumes "hex4 (xs @ [c]) = Some u"
  shows "hex_val c \<noteq> None"
proof -
  from assms obtain a b d e where m: "map hex_val (xs @ [c]) = [Some a, Some b, Some d, Some e]"
    by (auto simp: hex4_def split: list.splits option.splits)
  then have "last (map hex_val (xs @ [c])) = Some e" by simp
  then show ?thesis by (simp add: last_map)
qed

lemma hex4_length: "hex4 ds = Some u \<Longrightarrow> length ds = 4"
proof -
  assume "hex4 ds = Some u"
  then obtain a b d e where "map hex_val ds = [Some a, Some b, Some d, Some e]"
    by (auto simp: hex4_def split: list.splits option.splits)
  then have "length (map hex_val ds) = 4" by simp
  then show ?thesis by simp
qed

lemma cons_str_Some:
  "cons_str u r = Some (x, rest) \<longleftrightarrow> (\<exists>y. x = u # y \<and> r = Some (y, rest))"
  by (cases r) (auto simp: cons_str_def)

lemma lex_string_snoc:
  assumes "isWhiteSpace c"
  shows "lex_string (s @ [c]) = Some (x, r) \<Longrightarrow>
         \<exists>r'. r = r' @ [c] \<and> lex_string s = Some (x, r')"
proof (induction s arbitrary: x r rule: lex_string.induct)
  case 1
  with ws_facts(1,2) [OF assms] show ?case
    by (simp add: cons_str_Some split: if_splits)
next
  case (2 a as)
  note ws = ws_facts [OF assms]
  show ?case
  proof (cases "a = 0x22")
    case True
    with "2.prems" show ?thesis by simp
  next
    case notq: False
    show ?thesis
    proof (cases "a = 0x5C")
      case bs: True
      show ?thesis
      proof (cases as)
        case Nil
        with notq bs "2.prems" ws show ?thesis by simp
      next
        case (Cons e cs')
        show ?thesis
        proof (cases "e = 0x75")
          case u: True
          from notq bs Cons u "2.prems" obtain w y where
            h: "hex4 (take 4 (cs' @ [c])) = Some w" and x: "x = w # y"
            and l: "lex_string (drop 4 (cs' @ [c])) = Some (y, r)"
            by (auto simp: cons_str_Some split: option.splits)
          have len: "4 \<le> length cs'"
          proof (rule ccontr)
            assume "\<not> 4 \<le> length cs'"
            then have "take 4 (cs' @ [c]) = cs' @ [c]" by simp
            with h have "hex_val c \<noteq> None" by (simp add: hex4_snoc)
            with ws show False by simp
          qed
          then have h': "hex4 (take 4 cs') = Some w" and l': "lex_string (drop 4 cs' @ [c]) = Some (y, r)"
            using h l by simp_all
          from "2.IH"(1) [OF notq bs Cons u h' l'] obtain r' where
            "r = r' @ [c]" "lex_string (drop 4 cs') = Some (y, r')" by blast
          with notq bs Cons u h' x show ?thesis
            by (simp add: cons_str_Some)
        next
          case nu: False
          from notq bs Cons nu "2.prems" obtain w y where
            h: "escape e = Some w" and x: "x = w # y"
            and l: "lex_string (cs' @ [c]) = Some (y, r)"
            by (auto simp: cons_str_Some split: option.splits)
          from "2.IH"(2) [OF notq bs Cons nu h l] obtain r' where
            "r = r' @ [c]" "lex_string cs' = Some (y, r')" by blast
          with notq bs Cons nu h x show ?thesis
            by (simp add: cons_str_Some)
        qed
      qed
    next
      case nbs: False
      from notq nbs "2.prems" obtain y where
        ctl: "\<not> a < 0x20" and x: "x = a # y" and l: "lex_string (as @ [c]) = Some (y, r)"
        by (auto simp: cons_str_Some split: if_splits)
      from "2.IH"(3) [OF notq nbs ctl l] obtain r' where
        "r = r' @ [c]" "lex_string as = Some (y, r')" by blast
      with notq nbs ctl x show ?thesis
        by (simp add: cons_str_Some)
    qed
  qed
qed


lemma cons_tok_Some: "cons_tok t r = Some ts \<longleftrightarrow> (\<exists>ts'. ts = t # ts' \<and> r = Some ts')"
  by (cases r) (auto simp: cons_tok_def)

lemma lex_ws: "is_json_ws a \<Longrightarrow> lex (a # cs) = lex cs"
  by (subst lex.simps) simp

lemma lex_punct:
  "\<not> is_json_ws a \<Longrightarrow> is_punct a \<Longrightarrow> lex (a # cs) = cons_tok (punct_tok a) (lex cs)"
  by (subst lex.simps) (auto simp: is_punct_def punct_tok_def)

lemma lex_other:
  "\<not> is_json_ws a \<Longrightarrow> \<not> is_punct a \<Longrightarrow>
   lex (a # cs) =
     (if a = 0x22 then
        (case lex_string cs of
           None \<Rightarrow> None
         | Some (s, r) \<Rightarrow> cons_tok (TStr s) (lex r))
      else if a = 0x2D \<or> is_digit a then
        (case number_value (a # takeWhile is_number_char cs) of
           None \<Rightarrow> None
         | Some q \<Rightarrow> cons_tok (TNum q) (lex (dropWhile is_number_char cs)))
      else if startsWith (a # cs) (js ''true'') then cons_tok TTrue (lex (drop 3 cs))
      else if startsWith (a # cs) (js ''false'') then cons_tok TFalse (lex (drop 4 cs))
      else if startsWith (a # cs) (js ''null'') then cons_tok TNull (lex (drop 3 cs))
      else None)"
  by (subst lex.simps) (simp add: is_punct_def)

lemma startsWith_length: "startsWith s p \<Longrightarrow> length p \<le> length s"
proof -
  assume "startsWith s p"
  then have "length (take (length p) s) = length p" by (simp add: startsWith_def)
  then show ?thesis by simp
qed

lemma lex_snoc:
  assumes ws: "isWhiteSpace c"
  shows "lex (s @ [c]) = Some ts \<Longrightarrow> lex s = Some ts"
proof (induction "length s" arbitrary: s ts rule: less_induct)
  case less
  note wsf = ws_facts [OF ws]
  show ?case
  proof (cases s)
    case Nil
    show ?thesis
    proof (cases "is_json_ws c")
      case True
      with less.prems Nil show ?thesis by (simp add: lex_ws)
    next
      case False
      with less.prems Nil ws show ?thesis by (simp add: lex_ws_only)
    qed
  next
    case (Cons a as)
    with less.prems have p: "lex (a # (as @ [c])) = Some ts" by simp
    have IH: "lex (s' @ [c]) = Some ts' \<Longrightarrow> lex s' = Some ts'" if "length s' \<le> length as" for s' ts'
      using less.hyps [of s' ts'] that Cons by simp
    show ?thesis
    proof (cases "is_json_ws a")
      case True
      with p IH [of as ts] Cons show ?thesis by (simp add: lex_ws)
    next
      case nws: False
      show ?thesis
      proof (cases "is_punct a")
        case True
        with nws p obtain ts' where "ts = punct_tok a # ts'" "lex (as @ [c]) = Some ts'"
          by (auto simp: lex_punct cons_tok_Some)
        with IH [of as ts'] nws True Cons show ?thesis
          by (simp add: lex_punct cons_tok_Some)
      next
        case np: False
        note unf = lex_other [OF nws np]
        consider (str) "a = 0x22"
          | (num) "a \<noteq> 0x22" "a = 0x2D \<or> is_digit a"
          | (kw) "a \<noteq> 0x22" "\<not> (a = 0x2D \<or> is_digit a)"
          by blast
        then show ?thesis
        proof cases
          case str
          from p str have "(case lex_string (as @ [c]) of
               None \<Rightarrow> None
             | Some (s, r) \<Rightarrow> cons_tok (TStr s) (lex r)) = Some ts"
            unfolding unf by simp
          then obtain x r ts' where l: "lex_string (as @ [c]) = Some (x, r)"
            and t: "ts = TStr x # ts'" "lex r = Some ts'"
            by (auto simp: cons_tok_Some split: option.splits)
          from lex_string_snoc [OF ws l] obtain r' where
            r: "r = r' @ [c]" "lex_string as = Some (x, r')" by blast
          from r(2) have "length r' \<le> length as"
            using lex_string_shorter [of as x r'] by simp
          with IH [of r' ts'] t r have "lex r' = Some ts'" by simp
          with str r t show ?thesis
            unfolding Cons unf by (simp add: cons_tok_Some)
        next
          case num
          from wsf have nn: "\<not> is_number_char c" by simp
          have tw: "takeWhile is_number_char (as @ [c]) = takeWhile is_number_char as"
            using nn by (rule takeWhile_snoc_not [where P = is_number_char])
          have dw: "dropWhile is_number_char (as @ [c]) = dropWhile is_number_char as @ [c]"
            using nn by (rule dropWhile_snoc_not [where P = is_number_char])
          from p num have "(case number_value (a # takeWhile is_number_char (as @ [c])) of
               None \<Rightarrow> None
             | Some q \<Rightarrow> cons_tok (TNum q) (lex (dropWhile is_number_char (as @ [c])))) = Some ts"
            unfolding unf by simp
          then obtain q ts' where
            v: "number_value (a # takeWhile is_number_char as) = Some q"
            and t: "ts = TNum q # ts'" "lex (dropWhile is_number_char as @ [c]) = Some ts'"
            by (auto simp: cons_tok_Some tw dw split: option.splits)
          have "length (dropWhile is_number_char as) \<le> length as"
            by (rule length_dropWhile_le)
          with IH [of "dropWhile is_number_char as" ts'] t
          have "lex (dropWhile is_number_char as) = Some ts'" by simp
          with num v t show ?thesis
            unfolding Cons unf by (simp add: cons_tok_Some)
        next
          case kw
          have st: "startsWith (a # (as @ [c])) (js ''true'') = startsWith (a # as) (js ''true'')"
            "startsWith (a # (as @ [c])) (js ''false'') = startsWith (a # as) (js ''false'')"
            "startsWith (a # (as @ [c])) (js ''null'') = startsWith (a # as) (js ''null'')"
            using startsWith_snoc [OF wsf(7), of "a # as"] startsWith_snoc [OF wsf(8), of "a # as"]
              startsWith_snoc [OF wsf(9), of "a # as"]
            by simp_all
          have keyword: "lex (a # as) = Some ts"
            if "cons_tok t (lex (drop n (as @ [c]))) = Some ts"
              and "lex (a # as) = cons_tok t (lex (drop n as))" and "n \<le> length as" for t n
          proof -
            from that(1,3) obtain ts' where "ts = t # ts'" "lex (drop n as @ [c]) = Some ts'"
              by (auto simp: cons_tok_Some)
            with IH [of "drop n as" ts'] that(2) show ?thesis
              by (simp add: cons_tok_Some)
          qed
          show ?thesis
          proof (cases "startsWith (a # as) (js ''true'')")
            case True
            then have len: "3 \<le> length as"
              using startsWith_length [OF True] by (simp add: js_def)
            from p kw True st have "cons_tok TTrue (lex (drop 3 (as @ [c]))) = Some ts"
              unfolding unf by simp
            moreover from kw True have "lex (a # as) = cons_tok TTrue (lex (drop 3 as))"
              unfolding unf by simp
            ultimately show ?thesis
              unfolding Cons using len by (rule keyword)
          next
            case nt: False
            show ?thesis
            proof (cases "startsWith (a # as) (js ''false'')")
              case True
              then have len: "4 \<le> length as"
                using startsWith_length [OF True] by (simp add: js_def)
              from p kw nt True st have "cons_tok TFalse (lex (drop 4 (as @ [c]))) = Some ts"
                unfolding unf by simp
              moreover from kw nt True have "lex (a # as) = cons_tok TFalse (lex (drop 4 as))"
                unfolding unf by simp
              ultimately show ?thesis
                unfolding Cons using len by (rule keyword)
            next
              case nf: False
              show ?thesis
              proof (cases "startsWith (a # as) (js ''null'')")
                case True
                then have len: "3 \<le> length as"
                  using startsWith_length [OF True] by (simp add: js_def)
                from p kw nt nf True st have "cons_tok TNull (lex (drop 3 (as @ [c]))) = Some ts"
                  unfolding unf by simp
                moreover from kw nt nf True have "lex (a # as) = cons_tok TNull (lex (drop 3 as))"
                  unfolding unf by simp
                ultimately show ?thesis
                  unfolding Cons using len by (rule keyword)
              next
                case False
                with p kw nt nf st show ?thesis
                  unfolding unf by simp
              qed
            qed
          qed
        qed
      qed
    qed
  qed
qed


lemma lex_append_ws:
  "list_all isWhiteSpace w \<Longrightarrow> lex (s @ w) = Some ts \<Longrightarrow> lex s = Some ts"
proof (induction w rule: rev_induct)
  case Nil
  then show ?case by simp
next
  case (snoc c w)
  from snoc.prems have "isWhiteSpace c" "lex ((s @ w) @ [c]) = Some ts" by simp_all
  then have "lex (s @ w) = Some ts" by (rule lex_snoc)
  with snoc show ?case by simp
qed

lemma trim_decompose:
  "dropWhile isWhiteSpace t = trim t @ rev (takeWhile isWhiteSpace (rev (dropWhile isWhiteSpace t)))"
proof -
  have "rev (dropWhile isWhiteSpace t)
        = takeWhile isWhiteSpace (rev (dropWhile isWhiteSpace t))
          @ dropWhile isWhiteSpace (rev (dropWhile isWhiteSpace t))"
    by (simp only: takeWhile_dropWhile_id)
  then have "rev (rev (dropWhile isWhiteSpace t))
        = rev (takeWhile isWhiteSpace (rev (dropWhile isWhiteSpace t))
          @ dropWhile isWhiteSpace (rev (dropWhile isWhiteSpace t)))"
    by (rule arg_cong)
  then show ?thesis
    by (simp only: rev_rev_ident rev_append trim_def)
qed

lemma lex_trim: "lex t = Some ts \<Longrightarrow> lex (trim t) = Some ts"
proof -
  assume "lex t = Some ts"
  then have "lex (dropWhile isWhiteSpace t) = Some ts"
    by (rule lex_dropWhile_ws)
  then have "lex (trim t @ rev (takeWhile isWhiteSpace (rev (dropWhile isWhiteSpace t)))) = Some ts"
    using trim_decompose [of t] by simp
  moreover have "list_all isWhiteSpace (rev (takeWhile isWhiteSpace (rev (dropWhile isWhiteSpace t))))"
    by (auto simp: list_all_iff dest: set_takeWhileD)
  ultimately show ?thesis
    by (rule lex_append_ws [rotated])
qed

text \<open>
  A text that \<open>JSON.parse\<close> accepts is accepted, with the same value, after \<open>trim\<close>: the
  white space \<open>trim\<close> removes beyond that of JSON never starts or ends such a text.
\<close>

lemma JSON_parse_trim: "JSON_parse t = Some v \<Longrightarrow> JSON_parse (trim t) = Some v"
  by (auto simp: JSON_parse_def lex_trim split: option.splits)

lemma JSON_parse_empty: "JSON_parse [] = None"
  by (simp add: JSON_parse_def lex.simps)

lemma jsonStr_parses: "JSON_parse t = Some v \<Longrightarrow> JSON_parse (jsonStr (Some t)) = Some v"
proof -
  assume p: "JSON_parse t = Some v"
  then have q: "JSON_parse (trim t) = Some v" by (rule JSON_parse_trim)
  then have "trim t \<noteq> []" using JSON_parse_empty by auto
  with q show ?thesis by (simp add: jsonStr_def)
qed

section \<open>Properties of the handlers\<close>

lemma handleDrop_ignores_non_image:
  "\<not> startsWith (ftype f) (js ''image/'') \<Longrightarrow>
   handleDrop (f # fs) st = (st\<lparr>isDragging := False\<rparr>, [PreventDefault])"
  by (simp add: handleDrop_def)

lemma parse_response_text:
  "JSON_parse t = Some v \<Longrightarrow> parse_response (Fulfilled (Some t)) = Inr v"
  by (simp add: parse_response_def jsonStr_parses)

lemma handleModify_stores_parsed_text:
  "JSON_parse t = Some v \<Longrightarrow>
   handleModify_end (Fulfilled (Some t)) st
   = (st\<lparr>result := v, modifyInstruction := [], isModifying := False\<rparr>, [])"
  by (simp add: handleModify_end_def parse_response_text)

lemma analyzeImage_stores_parsed_text:
  "JSON_parse t = Some v \<Longrightarrow>
   analyzeImage_end (Fulfilled (Some t)) st = (st\<lparr>result := v, isLoading := False\<rparr>, [])"
  by (simp add: analyzeImage_end_def parse_response_text)

lemma copyToClipboard_falsy:
  "\<not> truthy (result st) \<Longrightarrow> copyToClipboard m st = (st, [])"
  by (simp add: copyToClipboard_def)

lemma handleFileChange_reads_any:
  "handleFileChange (Some (f # fs)) st = (st, [ReadAsDataURL f])"
  by (simp add: handleFileChange_def processFile_def)

lemma jsonStr_blank:
  "(case text of None \<Rightarrow> True | Some t \<Rightarrow> trim t = []) \<Longrightarrow> jsonStr text = js ''{}''"
  by (auto simp: jsonStr_def split: option.splits)

lemma parse_empty_object: "JSON_parse (js ''{}'') = Some (JObject [])"
  by (simp add: JSON_parse_def js_def lex.simps is_json_ws_def cons_tok_def)

lemma analyzeImage_result:
  "result (fst (analyzeImage base64Data mimeType out st))
   = (case parse_response out of Inl e \<Rightarrow> error_result | Inr v \<Rightarrow> v)"
  by (simp add: analyzeImage_def analyzeImage_begin_def analyzeImage_end_def Let_def
      split: sum.splits)

lemma lines_by_index:
  "n = j + length es \<Longrightarrow>
   map (\<lambda>(index, key, value). entry_line key (f value) (int index < int n - 1)) (enumerate j es)
   = entry_lines (map (\<lambda>(key, value). (key, f value)) es)"
proof (induction es arbitrary: j)
  case Nil
  then show ?case by simp
next
  case (Cons e es)
  obtain k v where e: "e = (k, v)" by (cases e)
  show ?case
  proof (cases es)
    case Nil
    with Cons.prems e show ?thesis by simp
  next
    case (Cons e' es')
    obtain k' v' where e': "e' = (k', v')" by (cases e')
    from Cons.prems Cons have n: "n = Suc j + length es" by simp
    have "int j < int n - 1" using Cons.prems Cons by simp
    with Cons.IH [OF n] e e' Cons show ?thesis by simp
  qed
qed

lemma example_not_blocked: "\<not> modify_blocked example_state"
proof -
  have "trim (js ''make it night'') \<noteq> []" by code_simp
  then show ?thesis
    by (simp add: modify_blocked_def example_state_def example_result_def initial_state_def js_def)
qed

section \<open>The claims\<close>

text \<open>
  Claim C1, as the code has it. An analysis call that ends without storing the error
  result was given a response, and stores exactly the value \<open>JSON.parse\<close> returns for
  the trimmed response text, or for \<open>{}\<close> when the text is absent, empty or only white
  space: then the stored result is the empty object, which has none of the ten keys.
  The shape is asked of the model service through \<open>responseSchema\<close>; the code does not
  check it.
\<close>

theorem analyzeImage_stores_parsed:
  assumes "result (fst (analyzeImage base64Data mimeType out st)) \<noteq> error_result"
  shows "case out of
           Rejected e \<Rightarrow> False
         | Fulfilled text \<Rightarrow>
             JSON_parse (jsonStr text)
               = Some (result (fst (analyzeImage base64Data mimeType out st)))
             \<and> ((case text of None \<Rightarrow> True | Some t \<Rightarrow> trim t = []) \<longrightarrow>
                  result (fst (analyzeImage base64Data mimeType out st)) = JObject [])"
proof (cases out)
  case (Rejected e)
  with assms show ?thesis
    by (simp add: analyzeImage_def analyzeImage_begin_def analyzeImage_end_def
        parse_response_def Let_def)
next
  case (Fulfilled tx)
  show ?thesis
  proof (cases "JSON_parse (jsonStr tx)")
    case None
    with assms Fulfilled show ?thesis
      by (simp add: analyzeImage_def analyzeImage_begin_def analyzeImage_end_def
          parse_response_def Let_def)
  next
    case (Some v)
    with Fulfilled have r: "result (fst (analyzeImage base64Data mimeType out st)) = v"
      by (simp add: analyzeImage_def analyzeImage_begin_def analyzeImage_end_def
          parse_response_def Let_def)
    have "(case tx of None \<Rightarrow> True | Some t \<Rightarrow> trim t = []) \<Longrightarrow> v = JObject []"
      using Some jsonStr_blank [of tx] parse_empty_object by simp
    with Fulfilled Some r show ?thesis by simp
  qed
qed

text \<open>The theorem at a response of two spaces.\<close>

theorem analyzeImage_stores_parsed_witness:
  "result (fst (analyzeImage (js ''data:image/png;base64,iVBORw0KGgo='') (js ''image/png'')
                  (Fulfilled (Some (js ''  ''))) initial_state)) \<noteq> error_result
   \<and> JSON_parse (jsonStr (Some (js ''  '')))
       = Some (result (fst (analyzeImage (js ''data:image/png;base64,iVBORw0KGgo='')
                  (js ''image/png'') (Fulfilled (Some (js ''  ''))) initial_state)))
   \<and> result (fst (analyzeImage (js ''data:image/png;base64,iVBORw0KGgo='') (js ''image/png'')
                  (Fulfilled (Some (js ''  ''))) initial_state)) = JObject []"
proof -
  have p: "parse_response (Fulfilled (Some (js ''  ''))) = Inr (JObject [])"
    by code_simp
  have b: "trim (js ''  '') = []"
    by code_simp
  have h: "result (fst (analyzeImage (js ''data:image/png;base64,iVBORw0KGgo='')
              (js ''image/png'') (Fulfilled (Some (js ''  ''))) initial_state)) \<noteq> error_result"
    by (simp only: analyzeImage_result p sum.case) (simp add: error_result_def)
  from analyzeImage_stores_parsed [OF h] b h show ?thesis
    by simp
qed

text \<open>
  Claim C1 as stated fails: on a response of two spaces the call stores no error, and
  the stored result is the empty object.
\<close>

theorem analyzeImage_blank_counterexample:
  "result (fst (analyzeImage (js ''data:image/png;base64,iVBORw0KGgo='') (js ''image/png'')
                  (Fulfilled (Some (js ''  ''))) initial_state)) = JObject []
   \<and> JObject [] \<noteq> error_result
   \<and> \<not> is_prompt_result (JObject [])"
proof -
  have "parse_response (Fulfilled (Some (js ''  ''))) = Inr (JObject [])"
    by code_simp
  then have "result (fst (analyzeImage (js ''data:image/png;base64,iVBORw0KGgo='')
                  (js ''image/png'') (Fulfilled (Some (js ''  ''))) initial_state)) = JObject []"
    by (simp only: analyzeImage_result sum.case)
  moreover have "JObject [] \<noteq> error_result"
    by (simp add: error_result_def)
  moreover have "\<not> is_prompt_result (JObject [])"
    by (simp add: is_prompt_result_def promptSchema_def)
  ultimately show ?thesis by blast
qed

text \<open>
  Claim C2. The file picker does not look at the MIME type: a file of type
  \<open>text/plain\<close> chosen there is read, and its \<open>onload\<close> stores the data URL as the image
  and starts an analysis call. The same file dropped is ignored by \<open>handleDrop\<close>.
\<close>

theorem handleFileChange_accepts_non_image:
  "\<not> startsWith (ftype \<lparr>fname = js ''notes.txt'', ftype = js ''text/plain''\<rparr>) (js ''image/'')
   \<and> handleFileChange (Some [\<lparr>fname = js ''notes.txt'', ftype = js ''text/plain''\<rparr>]) initial_state
       = (initial_state, [ReadAsDataURL \<lparr>fname = js ''notes.txt'', ftype = js ''text/plain''\<rparr>])
   \<and> reader_onload \<lparr>fname = js ''notes.txt'', ftype = js ''text/plain''\<rparr>
         (js ''data:text/plain;base64,aGk='') initial_state
       = (initial_state\<lparr>image_url := Some (js ''data:text/plain;base64,aGk=''), isLoading := True\<rparr>,
          [GenerateContent (analysis_request (Some (js ''aGk='')) (js ''text/plain''))])
   \<and> handleDrop [\<lparr>fname = js ''notes.txt'', ftype = js ''text/plain''\<rparr>] initial_state
       = (initial_state, [PreventDefault])"
  by (simp add: handleFileChange_def processFile_def reader_onload_def analyzeImage_begin_def
      handleDrop_def startsWith_def split_comma_1_def initial_state_def js_def)

text \<open>
  Claim C3. When the awaited call or the parse of its text throws, the continuation of
  \<open>handleModify\<close> only logs the error and clears \<open>isModifying\<close>, whatever the state it
  resumes in; so the call as a whole leaves the result and the instruction as they
  were.
\<close>

theorem handleModify_error_keeps_result:
  assumes "parse_response out = Inl e"
  shows "handleModify_end out st
           = (st\<lparr>isModifying := False\<rparr>, [ConsoleError (js ''Error modifying prompt:'') e])
         \<and> result (fst (handleModify out st)) = result st
         \<and> modifyInstruction (fst (handleModify out st)) = modifyInstruction st
         \<and> (\<not> modify_blocked st \<longrightarrow>
               handleModify out st
               = (st\<lparr>isModifying := False\<rparr>,
                  [GenerateContent (modify_request (modify_prompt (result st) (modifyInstruction st))),
                   ConsoleError (js ''Error modifying prompt:'') e]))"
  using assms
  by (simp add: handleModify_end_def handleModify_def handleModify_begin_def)

text \<open>The theorem at a rejected call, from a state with a result and an instruction.\<close>

theorem handleModify_error_keeps_result_witness:
  "parse_response (Rejected (Thrown (js ''fetch failed''))) = Inl (Thrown (js ''fetch failed''))
   \<and> result (fst (handleModify (Rejected (Thrown (js ''fetch failed''))) example_state))
       = example_result
   \<and> handleModify (Rejected (Thrown (js ''fetch failed''))) example_state
       = (example_state\<lparr>isModifying := False\<rparr>,
          [GenerateContent (modify_request (modify_prompt example_result (js ''make it night''))),
           ConsoleError (js ''Error modifying prompt:'') (Thrown (js ''fetch failed''))])"
proof -
  have h: "parse_response (Rejected (Thrown (js ''fetch failed''))) = Inl (Thrown (js ''fetch failed''))"
    by (simp add: parse_response_def)
  have r: "result example_state = example_result"
    "modifyInstruction example_state = js ''make it night''"
    by (simp_all add: example_state_def)
  from handleModify_error_keeps_result [OF h, of example_state] example_not_blocked h r
  show ?thesis by simp
qed

text \<open>
  Claim C4, as the code has it. \<open>handleModify\<close> returns at its guard, with the state as
  it was and no call of the model, when the instruction is empty or only white space,
  when the result is \<open>null\<close> (or another falsy value), and when the result has a member
  \<open>error\<close> that is truthy: the object \<open>analyzeImage\<close> stores on a failure, and any
  \<open>{error: s}\<close> with a string \<open>s\<close> that is not empty.
\<close>

theorem handleModify_guard:
  assumes "trim (modifyInstruction st) = [] \<or> \<not> truthy (result st)
           \<or> (own_property (result st) (js ''error'') = Some e \<and> truthy e)"
  shows "handleModify_begin st = (st, []) \<and> handleModify out st = (st, [])"
proof -
  from assms have "modify_blocked st"
    by (auto simp: modify_blocked_def)
  then show ?thesis
    by (simp add: handleModify_begin_def handleModify_def)
qed

text \<open>
  The theorem at an instruction of three spaces, at the result \<open>null\<close>, at the error
  object of \<open>analyzeImage\<close> and at another error object.
\<close>

theorem handleModify_guard_witness:
  "trim (modifyInstruction (example_state\<lparr>modifyInstruction := js ''   ''\<rparr>)) = []
   \<and> handleModify (Fulfilled (Some (js ''{}''))) (example_state\<lparr>modifyInstruction := js ''   ''\<rparr>)
       = (example_state\<lparr>modifyInstruction := js ''   ''\<rparr>, [])
   \<and> result (example_state\<lparr>result := JNull\<rparr>) = JNull
   \<and> handleModify (Fulfilled (Some (js ''{}''))) (example_state\<lparr>result := JNull\<rparr>)
       = (example_state\<lparr>result := JNull\<rparr>, [])
   \<and> handleModify_begin (example_state\<lparr>result := JNull\<rparr>)
       = (example_state\<lparr>result := JNull\<rparr>, [])
   \<and> handleModify (Fulfilled (Some (js ''{}'')))
         (example_state\<lparr>result :=
            JObject [(js ''error'', JString (js ''Failed to analyze image. Please try again.''))]\<rparr>)
       = (example_state\<lparr>result :=
            JObject [(js ''error'', JString (js ''Failed to analyze image. Please try again.''))]\<rparr>, [])
   \<and> handleModify_begin
         (example_state\<lparr>result :=
            JObject [(js ''error'', JString (js ''Failed to analyze image. Please try again.''))]\<rparr>)
       = (example_state\<lparr>result :=
            JObject [(js ''error'', JString (js ''Failed to analyze image. Please try again.''))]\<rparr>, [])
   \<and> handleModify (Fulfilled (Some (js ''{}'')))
         (example_state\<lparr>result := JObject [(js ''error'', JString (js ''quota exceeded''))]\<rparr>)
       = (example_state\<lparr>result := JObject [(js ''error'', JString (js ''quota exceeded''))]\<rparr>, [])"
proof -
  let ?out = "Fulfilled (Some (js ''{}''))"
  let ?failed = "JObject [(js ''error'', JString (js ''Failed to analyze image. Please try again.''))]"
  let ?quota = "JObject [(js ''error'', JString (js ''quota exceeded''))]"
  have b: "trim (js ''   '') = []"
    by code_simp
  then have h1: "trim (modifyInstruction (example_state\<lparr>modifyInstruction := js ''   ''\<rparr>)) = []
      \<or> \<not> truthy (result (example_state\<lparr>modifyInstruction := js ''   ''\<rparr>))
      \<or> (own_property (result (example_state\<lparr>modifyInstruction := js ''   ''\<rparr>)) (js ''error'')
            = Some JNull \<and> truthy JNull)"
    by simp
  have h2: "trim (modifyInstruction (example_state\<lparr>result := JNull\<rparr>)) = []
      \<or> \<not> truthy (result (example_state\<lparr>result := JNull\<rparr>))
      \<or> (own_property (result (example_state\<lparr>result := JNull\<rparr>)) (js ''error'')
            = Some JNull \<and> truthy JNull)"
    by simp
  have h3: "trim (modifyInstruction (example_state\<lparr>result := ?failed\<rparr>)) = []
      \<or> \<not> truthy (result (example_state\<lparr>result := ?failed\<rparr>))
      \<or> (own_property (result (example_state\<lparr>result := ?failed\<rparr>)) (js ''error'')
            = Some (JString (js ''Failed to analyze image. Please try again.''))
          \<and> truthy (JString (js ''Failed to analyze image. Please try again.'')))"
    by (simp add: js_def)
  have h4: "trim (modifyInstruction (example_state\<lparr>result := ?quota\<rparr>)) = []
      \<or> \<not> truthy (result (example_state\<lparr>result := ?quota\<rparr>))
      \<or> (own_property (result (example_state\<lparr>result := ?quota\<rparr>)) (js ''error'')
            = Some (JString (js ''quota exceeded''))
          \<and> truthy (JString (js ''quota exceeded'')))"
    by (simp add: js_def)
  from handleModify_guard [OF h1, of ?out] handleModify_guard [OF h2, of ?out]
    handleModify_guard [OF h3, of ?out] handleModify_guard [OF h4, of ?out] b
  show ?thesis by simp
qed

text \<open>
  Claim C4 as stated fails on an error result whose message is empty: the response
  text \<open>{"error": ""}\<close> is stored as the result, its member \<open>error\<close> is falsy, and
  \<open>handleModify\<close> passes the guard, sets \<open>isModifying\<close> and calls the model.
\<close>

theorem handleModify_empty_error_counterexample:
  \<open>result (fst (analyzeImage (js ''data:image/png;base64,iVBORw0KGgo='') (js ''image/png'')
                  (Fulfilled (Some (js ''{"error": ""}''))) initial_state))
     = JObject [(js ''error'', JString [])]
   \<and> handleModify_begin (example_state\<lparr>result := JObject [(js ''error'', JString [])]\<rparr>)
       = (example_state\<lparr>result := JObject [(js ''error'', JString [])], isModifying := True\<rparr>,
          [GenerateContent
             (modify_request
                (modify_prompt (JObject [(js ''error'', JString [])]) (js ''make it night'')))])\<close>
proof -
  have \<open>parse_response (Fulfilled (Some (js ''{"error": ""}'')))
        = Inr (JObject [(js ''error'', JString [])])\<close>
    by code_simp
  then have r: \<open>result (fst (analyzeImage (js ''data:image/png;base64,iVBORw0KGgo='')
                  (js ''image/png'') (Fulfilled (Some (js ''{"error": ""}''))) initial_state))
     = JObject [(js ''error'', JString [])]\<close>
    by (simp only: analyzeImage_result sum.case)
  have "trim (js ''make it night'') \<noteq> []"
    by code_simp
  then have "\<not> modify_blocked (example_state\<lparr>result := JObject [(js ''error'', JString [])]\<rparr>)"
    by (simp add: modify_blocked_def example_state_def)
  then have "handleModify_begin (example_state\<lparr>result := JObject [(js ''error'', JString [])]\<rparr>)
       = (example_state\<lparr>result := JObject [(js ''error'', JString [])], isModifying := True\<rparr>,
          [GenerateContent
             (modify_request
                (modify_prompt (JObject [(js ''error'', JString [])]) (js ''make it night'')))])"
    by (simp add: handleModify_begin_def example_state_def)
  with r show ?thesis by blast
qed

text \<open>
  Claim C5, as the code has it. On a truthy result \<open>copyToClipboard('all')\<close> writes
  \<open>JSON.stringify(result, null, 2)\<close>, acknowledges the mode and starts the timer. The
  guard is \<open>!result\<close>, so the results \<open>false\<close>, \<open>0\<close> and the empty string, which are not
  \<open>null\<close>, are excluded as \<open>null\<close> is.
\<close>

theorem copyToClipboard_all:
  assumes "truthy (result st)"
  shows "copyToClipboard ModeAll st
         = (st\<lparr>copied := Some ModeAll\<rparr>,
            [ClipboardWriteText (JSON_stringify (result st)), SetTimeout 2000])"
  using assms by (simp add: copyToClipboard_def textToCopy_def)

text \<open>The theorem at the example result of the specification.\<close>

theorem copyToClipboard_all_witness:
  \<open>truthy (result example_state)
   \<and> copyToClipboard ModeAll example_state
       = (example_state\<lparr>copied := Some ModeAll\<rparr>,
          [ClipboardWriteText (JSON_stringify example_result), SetTimeout 2000])
   \<and> JSON_stringify example_result
       = js ''{'' @ [0x0A]
         @ js ''  "subject": {'' @ [0x0A]
         @ js ''    "en": "A cat",'' @ [0x0A]
         @ js ''    "zh": "'' @ [0x4E00, 0x53EA, 0x732B] @ js ''"'' @ [0x0A]
         @ js ''  }'' @ [0x0A]
         @ js ''}''\<close>
proof -
  have h: "truthy (result example_state)"
    by (simp add: example_state_def example_result_def)
  have r: "result example_state = example_result"
    by (simp add: example_state_def)
  have t: \<open>JSON_stringify example_result
       = js ''{'' @ [0x0A]
         @ js ''  "subject": {'' @ [0x0A]
         @ js ''    "en": "A cat",'' @ [0x0A]
         @ js ''    "zh": "'' @ [0x4E00, 0x53EA, 0x732B] @ js ''"'' @ [0x0A]
         @ js ''  }'' @ [0x0A]
         @ js ''}''\<close>
    by code_simp
  from copyToClipboard_all [OF h] h r have
    "truthy (result example_state)
     \<and> copyToClipboard ModeAll example_state
         = (example_state\<lparr>copied := Some ModeAll\<rparr>,
            [ClipboardWriteText (JSON_stringify example_result), SetTimeout 2000])"
    by simp
  with t show ?thesis by blast
qed

text \<open>
  Claim C5 as stated fails: the response text \<open>false\<close> is stored as the result \<open>false\<close>,
  which is not \<open>null\<close>, and on it \<open>copyToClipboard('all')\<close> writes nothing.
\<close>

theorem copyToClipboard_all_falsy_counterexample:
  "result (fst (analyzeImage (js ''data:image/png;base64,iVBORw0KGgo='') (js ''image/png'')
                  (Fulfilled (Some (js ''false''))) initial_state)) = JBool False
   \<and> JBool False \<noteq> JNull
   \<and> snd (copyToClipboard ModeAll (initial_state\<lparr>result := JBool False\<rparr>)) = []"
proof -
  have "parse_response (Fulfilled (Some (js ''false''))) = Inr (JBool False)"
    by code_simp
  then have "result (fst (analyzeImage (js ''data:image/png;base64,iVBORw0KGgo='')
                  (js ''image/png'') (Fulfilled (Some (js ''false''))) initial_state)) = JBool False"
    by (simp only: analyzeImage_result sum.case)
  moreover have "snd (copyToClipboard ModeAll (initial_state\<lparr>result := JBool False\<rparr>)) = []"
    by (simp add: copyToClipboard_def)
  ultimately show ?thesis by simp
qed


text \<open>
  Claim C6, as the code has it. On a truthy result that has no key \<open>__proto__\<close>, and
  for the modes \<open>en\<close> and \<open>zh\<close>, \<open>copyToClipboard\<close> writes the serialization of
  \<open>filteredResult\<close>, whose keys are exactly the keys of the result; a key whose value
  is an object with the member of the mode holds that member, and every other key
  holds its value unchanged.
\<close>

theorem copyToClipboard_language:
  assumes "truthy (result st)" and "m \<noteq> ModeAll"
    and "distinct (map fst (Object_entries (result st)))"
    and "js ''__proto__'' \<notin> fst ` set (Object_entries (result st))"
  shows "copyToClipboard m st
         = (st\<lparr>copied := Some m\<rparr>,
            [ClipboardWriteText (JSON_stringify (JObject (filteredResult m (result st)))),
             SetTimeout 2000])
    \<and> fst ` set (filteredResult m (result st)) = fst ` set (Object_entries (result st))
    \<and> (\<forall>key value. (key, value) \<in> set (Object_entries (result st)) \<longrightarrow>
          map_of (filteredResult m (result st)) key
          = (case own_property value (mode_key m) of
               Some s \<Rightarrow> if typeof value = ''object'' then Some s else Some value
             | None \<Rightarrow> Some value))"
proof -
  have copy: "copyToClipboard m st
         = (st\<lparr>copied := Some m\<rparr>,
            [ClipboardWriteText (JSON_stringify (JObject (filteredResult m (result st)))),
             SetTimeout 2000])"
    using assms(1,2) by (simp add: copyToClipboard_def textToCopy_def)
  have keys: "fst ` set (filteredResult m (result st)) = fst ` set (Object_entries (result st))"
    using assms(4) by (simp add: filteredResult_def foldl_filter_keys)
  have vals: "map_of (filteredResult m (result st)) key
          = (case own_property value (mode_key m) of
               Some s \<Rightarrow> if typeof value = ''object'' then Some s else Some value
             | None \<Rightarrow> Some value)"
    if kv: "(key, value) \<in> set (Object_entries (result st))" for key "value"
  proof -
    from kv assms(4) have "key \<noteq> js ''__proto__''" by force
    with assms(3) kv have "map_of (filteredResult m (result st)) key
        = Some (projected (mode_key m) value)"
      by (simp add: filteredResult_def foldl_filter_lookup)
    moreover have "typeof value = ''object'' \<Longrightarrow> own_property value (mode_key m) \<noteq> None
        \<Longrightarrow> truthy value"
      by (cases "value") simp_all
    ultimately show ?thesis
      by (auto simp: projected_def split: option.splits)
  qed
  from copy keys vals show ?thesis by blast
qed

text \<open>The theorem at a result with a bilingual field and a string field.\<close>

theorem copyToClipboard_language_witness:
  "truthy (result (example_state\<lparr>result := example_mixed\<rparr>))
   \<and> ModeEn \<noteq> ModeAll
   \<and> distinct (map fst (Object_entries (result (example_state\<lparr>result := example_mixed\<rparr>))))
   \<and> js ''__proto__'' \<notin> fst ` set (Object_entries (result (example_state\<lparr>result := example_mixed\<rparr>)))
   \<and> snd (copyToClipboard ModeEn (example_state\<lparr>result := example_mixed\<rparr>))
       = [ClipboardWriteText (JSON_stringify (JObject (filteredResult ModeEn example_mixed))),
          SetTimeout 2000]
   \<and> fst ` set (filteredResult ModeEn example_mixed) = {js ''subject'', js ''note''}
   \<and> map_of (filteredResult ModeEn example_mixed) (js ''subject'') = Some (JString (js ''A cat''))
   \<and> map_of (filteredResult ModeEn example_mixed) (js ''note'') = Some (JString (js ''n/a''))"
proof -
  let ?st = "example_state\<lparr>result := example_mixed\<rparr>"
  have h1: "truthy (result ?st)"
    by (simp add: example_mixed_def)
  have h2: "ModeEn \<noteq> ModeAll"
    by simp
  have h3: "distinct (map fst (Object_entries (result ?st)))"
    by (simp add: example_mixed_def js_def)
  have h4: "js ''__proto__'' \<notin> fst ` set (Object_entries (result ?st))"
    by (simp add: example_mixed_def js_def)
  note t = copyToClipboard_language [OF h1 h2 h3 h4]
  from t have c: "snd (copyToClipboard ModeEn ?st)
       = [ClipboardWriteText (JSON_stringify (JObject (filteredResult ModeEn example_mixed))),
          SetTimeout 2000]"
    by simp
  from t have k: "fst ` set (filteredResult ModeEn example_mixed) = {js ''subject'', js ''note''}"
    by (simp add: example_mixed_def)
  from t have "\<forall>key value. (key, value) \<in> set (Object_entries example_mixed) \<longrightarrow>
          map_of (filteredResult ModeEn example_mixed) key
          = (case own_property value (mode_key ModeEn) of
               Some s \<Rightarrow> if typeof value = ''object'' then Some s else Some value
             | None \<Rightarrow> Some value)"
    by simp
  then have v: "map_of (filteredResult ModeEn example_mixed) (js ''subject'') = Some (JString (js ''A cat''))"
      "map_of (filteredResult ModeEn example_mixed) (js ''note'') = Some (JString (js ''n/a''))"
    by (simp_all add: example_mixed_def array_index_def is_digit_def js_def)
  from h1 h2 h3 h4 c k v show ?thesis by blast
qed

text \<open>
  Claim C6 as stated fails twice. A result with the key \<open>__proto__\<close>, as \<open>JSON.parse\<close>
  gives it, is truthy, and the object serialized for \<open>en\<close> has no key at all: the
  assignment \<open>filteredResult[key] = ...\<close> meets the setter of \<open>Object.prototype\<close>. And
  on the result \<open>false\<close>, which is not \<open>null\<close>, nothing is serialized.
\<close>

theorem copyToClipboard_language_counterexample:
  \<open>JSON_parse (js ''{"__proto__": {"en": "a", "zh": "b"}}'') = Some proto_result
   \<and> truthy proto_result
   \<and> map fst (Object_entries proto_result) = [js ''__proto__'']
   \<and> filteredResult ModeEn proto_result = []
   \<and> snd (copyToClipboard ModeEn (initial_state\<lparr>result := proto_result\<rparr>))
       = [ClipboardWriteText (js ''{}''), SetTimeout 2000]
   \<and> JBool False \<noteq> JNull
   \<and> snd (copyToClipboard ModeEn (initial_state\<lparr>result := JBool False\<rparr>)) = []\<close>
  by code_simp

text \<open>
  Claim C7. When the awaited call or the parse of its text throws, \<open>analyzeImage\<close>
  stores the object \<open>{error: "Failed to analyze image. Please try again."}\<close> as the
  result and logs the exception. \<open>isLoading\<close> is set before the call and is cleared by
  the \<open>finally\<close> block, whatever the call gave.
\<close>

theorem analyzeImage_error_result:
  assumes "parse_response out = Inl e"
  shows "analyzeImage_end out st
           = (st\<lparr>result :=
                  JObject [(js ''error'', JString (js ''Failed to analyze image. Please try again.''))],
                isLoading := False\<rparr>,
              [ConsoleError (js ''Error analyzing image:'') e])
         \<and> result (fst (analyzeImage base64Data mimeType out st))
             = JObject [(js ''error'', JString (js ''Failed to analyze image. Please try again.''))]
         \<and> snd (analyzeImage base64Data mimeType out st)
             = [GenerateContent (analysis_request (split_comma_1 base64Data) mimeType),
                ConsoleError (js ''Error analyzing image:'') e]
         \<and> isLoading (fst (analyzeImage_begin base64Data mimeType st))
         \<and> \<not> isLoading (fst (analyzeImage base64Data mimeType out st))
         \<and> \<not> isLoading (fst (analyzeImage_end out2 st2))
         \<and> \<not> isLoading (fst (analyzeImage base64Data mimeType out2 st))"
  using assms
  by (simp add: analyzeImage_def analyzeImage_begin_def analyzeImage_end_def error_result_def
      Let_def split: sum.splits)

text \<open>The theorem at a response that is not JSON, and at a rejected call.\<close>

theorem analyzeImage_error_result_witness:
  "parse_response (Fulfilled (Some (js ''not json''))) = Inl SyntaxError
   \<and> result (fst (analyzeImage (js ''data:image/png;base64,iVBORw0KGgo='') (js ''image/png'')
                  (Fulfilled (Some (js ''not json''))) initial_state))
       = JObject [(js ''error'', JString (js ''Failed to analyze image. Please try again.''))]
   \<and> snd (analyzeImage (js ''data:image/png;base64,iVBORw0KGgo='') (js ''image/png'')
                  (Fulfilled (Some (js ''not json''))) initial_state)
       = [GenerateContent (analysis_request (Some (js ''iVBORw0KGgo='')) (js ''image/png'')),
          ConsoleError (js ''Error analyzing image:'') SyntaxError]
   \<and> isLoading (fst (analyzeImage_begin (js ''data:image/png;base64,iVBORw0KGgo='')
                  (js ''image/png'') initial_state))
   \<and> parse_response (Rejected (Thrown (js ''fetch failed''))) = Inl (Thrown (js ''fetch failed''))
   \<and> analyzeImage_end (Rejected (Thrown (js ''fetch failed''))) (initial_state\<lparr>isLoading := True\<rparr>)
       = (initial_state\<lparr>isLoading := True,
            result := JObject [(js ''error'', JString (js ''Failed to analyze image. Please try again.''))],
            isLoading := False\<rparr>,
          [ConsoleError (js ''Error analyzing image:'') (Thrown (js ''fetch failed''))])"
proof -
  have h: "parse_response (Fulfilled (Some (js ''not json''))) = Inl SyntaxError"
    by code_simp
  have g: "parse_response (Rejected (Thrown (js ''fetch failed''))) = Inl (Thrown (js ''fetch failed''))"
    by (simp add: parse_response_def)
  have s: "split_comma_1 (js ''data:image/png;base64,iVBORw0KGgo='') = Some (js ''iVBORw0KGgo='')"
    by code_simp
  from analyzeImage_error_result [OF h, of initial_state
      "js ''data:image/png;base64,iVBORw0KGgo=''" "js ''image/png''"]
    analyzeImage_error_result [OF g, of "initial_state\<lparr>isLoading := True\<rparr>"] h g s
  show ?thesis by simp
qed

text \<open>
  Claim C8. When the awaited call gives a response and \<open>JSON.parse\<close> of its trimmed text
  (of \<open>{}\<close> for a blank text) returns a value, the continuation of \<open>handleModify\<close>
  stores that value as the result, resets the instruction to the empty string and
  clears \<open>isModifying\<close>. By \<open>jsonStr_parses\<close> that is the case, with the same value,
  whenever the response text itself parses.
\<close>

theorem handleModify_success:
  assumes "out = Fulfilled response_text" and "JSON_parse (jsonStr response_text) = Some v"
  shows "handleModify_end out st
           = (st\<lparr>result := v, modifyInstruction := [], isModifying := False\<rparr>, [])
         \<and> (\<not> modify_blocked st \<longrightarrow>
               handleModify out st
               = (st\<lparr>result := v, modifyInstruction := [], isModifying := False\<rparr>,
                  [GenerateContent
                     (modify_request (modify_prompt (result st) (modifyInstruction st)))]))"
  using assms
  by (simp add: handleModify_end_def handleModify_def handleModify_begin_def parse_response_def)

text \<open>The theorem at a response that changes the subject of the example.\<close>

theorem handleModify_success_witness:
  \<open>JSON_parse (jsonStr (Some (js '' {"subject": {"en": "A cat at night", "zh": "x"}} '')))
     = Some (JObject [(js ''subject'',
               JObject [(js ''en'', JString (js ''A cat at night'')), (js ''zh'', JString (js ''x''))])])
   \<and> handleModify (Fulfilled (Some (js '' {"subject": {"en": "A cat at night", "zh": "x"}} '')))
         example_state
       = (example_state\<lparr>result := JObject [(js ''subject'',
               JObject [(js ''en'', JString (js ''A cat at night'')), (js ''zh'', JString (js ''x''))])],
            modifyInstruction := [], isModifying := False\<rparr>,
          [GenerateContent
             (modify_request (modify_prompt (result example_state) (modifyInstruction example_state)))])\<close>
proof -
  have h: \<open>JSON_parse (jsonStr (Some (js '' {"subject": {"en": "A cat at night", "zh": "x"}} '')))
     = Some (JObject [(js ''subject'',
               JObject [(js ''en'', JString (js ''A cat at night'')), (js ''zh'', JString (js ''x''))])])\<close>
    by code_simp
  from handleModify_success [OF refl h, of example_state] example_not_blocked h
  show ?thesis by simp
qed

text \<open>
  Claim C9. \<open>renderJson\<close> is a function of the value alone (the flag \<open>isRoot\<close> is never
  read): a value that is not an object, and \<open>null\<close>, render as the value between double
  quotes; an object renders as the braces around one line per entry, each with the
  quoted key, the colon, the rendering of the value, and a comma except on the last.
\<close>

theorem renderJson_structure:
  "renderJson obj isRoot =
     (if typeof obj \<noteq> ''object'' \<or> obj = JNull then render_leaf obj
      else render_object (map (\<lambda>(key, value). (key, renderJson value False)) (Object_entries obj)))"
proof (cases "typeof obj \<noteq> ''object'' \<or> obj = JNull")
  case True
  then show ?thesis
    by (subst renderJson.simps) (simp add: render_leaf_def)
next
  case False
  have "map (\<lambda>(index, key, value).
               entry_line key (renderJson value False)
                 (int index < int (length (Object_entries obj)) - 1))
          (enumerate 0 (Object_entries obj))
        = entry_lines (map (\<lambda>(key, value). (key, renderJson value False)) (Object_entries obj))"
    by (rule lines_by_index) simp
  with False show ?thesis
    by (subst renderJson.simps)
       (simp add: render_object_def entry_line_def punct_def Let_def if_distrib cong: if_cong)
qed

text \<open>The theorem at a string, and at an object of two entries.\<close>

theorem renderJson_structure_witness:
  "renderJson (JString (js ''A cat'')) True = render_leaf (JString (js ''A cat''))
   \<and> renderJson (JObject [(js ''en'', JString (js ''A cat'')), (js ''n'', JNull)]) True
       = render_object
           [(js ''en'', render_leaf (JString (js ''A cat''))), (js ''n'', render_leaf JNull)]
   \<and> entry_lines [(js ''en'', render_leaf (JString (js ''A cat''))), (js ''n'', render_leaf JNull)]
       = [entry_line (js ''en'') (render_leaf (JString (js ''A cat''))) True,
          entry_line (js ''n'') (render_leaf JNull) False]"
  using renderJson_structure [of "JString (js ''A cat'')" True]
    renderJson_structure [of "JString (js ''A cat'')" False]
    renderJson_structure [of JNull False]
    renderJson_structure [of "JObject [(js ''en'', JString (js ''A cat'')), (js ''n'', JNull)]" True]
  by simp

text \<open>
  Claim C10. While the result is \<open>null\<close>, \<open>copyToClipboard\<close> returns at its guard for
  every mode: the state, with \<open>copied\<close>, is as it was, and nothing is written and no
  timer started.
\<close>

theorem copyToClipboard_null:
  "result st = JNull \<Longrightarrow> copyToClipboard m st = (st, [])"
  by (simp add: copyToClipboard_def)

text \<open>The theorem in the initial state, at each mode.\<close>

theorem copyToClipboard_null_witness:
  "result initial_state = JNull
   \<and> copyToClipboard ModeAll initial_state = (initial_state, [])
   \<and> copyToClipboard ModeEn initial_state = (initial_state, [])
   \<and> copyToClipboard ModeZh initial_state = (initial_state, [])"
proof -
  have h: "result initial_state = JNull"
    by (simp add: initial_state_def)
  from copyToClipboard_null [OF h, of ModeAll] copyToClipboard_null [OF h, of ModeEn]
    copyToClipboard_null [OF h, of ModeZh] h
  show ?thesis by simp
qed

end
